theory Spec2Isabelle
  imports Complex_Main "HOL-Library.Log_Nat"
begin

section \<open>JavaScript values\<close>

text \<open>
  JavaScript numbers are IEEE binary64 doubles.  The model computes over the real numbers
  and rounds, with the function \<open>fl\<close> of the next subsection, the arithmetic that
  the properties proved below are sensitive to: the perception countdown of the agent, the
  weights summed for the weighted choice of a spawn region and of an archetype, and the
  point sampled for a spawn.  Everywhere else the arithmetic is exact; NaN, the
  infinities and overflow are not modelled.  An object property that may be absent is
  an \<open>option\<close> (\<open>None\<close> is \<open>undefined\<close>).  A failing property access on
  \<open>undefined\<close> is the error value \<open>TypeError\<close>.  A call of \<open>Math.random()\<close> is a
  parameter of the model: the caller passes the number drawn.
\<close>

datatype js_error = TypeError

text \<open>\<open>v || d\<close> on a number: \<open>undefined\<close> and \<open>0\<close> are falsy.\<close>

definition js_or :: "real option \<Rightarrow> real \<Rightarrow> real" where
  "js_or v d = (case v of None \<Rightarrow> d | Some n \<Rightarrow> if n = 0 then d else n)"

text \<open>\<open>v || d\<close> on a string: \<open>undefined\<close> and the empty string are falsy.\<close>

definition js_or_str :: "string option \<Rightarrow> string \<Rightarrow> string" where
  "js_or_str v d = (case v of None \<Rightarrow> d | Some s \<Rightarrow> if s = [] then d else s)"

text \<open>\<open>a % b\<close> on numbers: the remainder of the division truncated towards zero.\<close>

definition js_rem :: "real \<Rightarrow> real \<Rightarrow> real" where
  "js_rem a b =
     a - b * of_int (if 0 \<le> a / b then \<lfloor>a / b\<rfloor> else \<lceil>a / b\<rceil>)"

text \<open>A \<open>Vector3\<close> of three.js, with \<open>distanceTo\<close>.\<close>

record vec3 =
  vx :: real
  vy :: real
  vz :: real

definition distanceTo :: "vec3 \<Rightarrow> vec3 \<Rightarrow> real" where
  "distanceTo a b = sqrt ((vx a - vx b)\<^sup>2 + (vy a - vy b)\<^sup>2 + (vz a - vz b)\<^sup>2)"

subsection \<open>Rounding to binary64\<close>

text \<open>
  \<open>fl x\<close> is the double nearest to the real number \<open>x\<close>, ties going to the even
  significand (the rounding of every arithmetic operation of JavaScript).  A double is an
  integer multiple of a power of two \<open>pow2 e\<close> with a significand below \<open>2^53\<close>; the
  exponent \<open>e\<close> of the result is that of the binade of \<open>x\<close> (the integer part of its
  binary logarithm, less 52), and not less than \<open>-1074\<close> (the subnormal numbers).  There
  is no largest double in the model.
\<close>

definition pow2 :: "int \<Rightarrow> real" where
  "pow2 e = (if 0 \<le> e then 2 ^ nat e else 1 / 2 ^ nat (- e))"

definition binade :: "real \<Rightarrow> int" where
  "binade x =
     (if 1 \<le> \<bar>x\<bar> then bitlen \<lfloor>\<bar>x\<bar>\<rfloor> - 1 else - bitlen (\<lceil>1 / \<bar>x\<bar>\<rceil> - 1))"

definition round_even :: "real \<Rightarrow> int" where
  "round_even y =
     (let n = \<lfloor>y\<rfloor>
      in if y - of_int n < 1 / 2 then n
         else if 1 / 2 < y - of_int n then n + 1
         else if even n then n else n + 1)"

definition fl_exponent :: "real \<Rightarrow> int" where
  "fl_exponent x = max (binade x - 52) (- 1074)"

definition fl :: "real \<Rightarrow> real" where
  "fl x =
     (if x = 0 then 0
      else of_int (round_even (x / pow2 (fl_exponent x))) * pow2 (fl_exponent x))"

section \<open>Zombie.js: the agent\<close>

text \<open>
  The behaviour state is one of the four strings the class uses.  The record holds the
  fields of the constructor that perception, the state machine and combat read or write.
  The yaw rotation, the velocity handed to the physics service, and the animation mixer
  are written by the class but never read by any transition, so the model leaves them out;
  the position of the physics body is set by the physics service, which is an input of the
  model.  \<open>stateLog\<close> is the console output of \<open>changeState\<close>: one entry
  \<open>(old, new)\<close> for every transition.
\<close>

datatype zstate = Idle | Chase | Attack | Death

record properties =
  p_health :: "real option"
  p_speed :: "real option"
  p_damage :: "real option"
  p_detectionRange :: "real option"
  p_type :: "string option"

record zombie =
  zombieType :: string
  position :: vec3
  enabled :: bool
  isAlive :: bool
  body_position :: vec3
  state :: zstate
  timeInCurrentState :: real
  timeSinceSpawn :: real
  speed_walk :: real
  speed_run :: real
  canSeePlayer :: bool
  detectionRange :: real
  updatePerceptionTime :: real
  perceptionUpdateRate :: real
  lastKnownPlayerPosition :: "vec3 option"
  health :: real
  maxHealth :: real
  attackRange :: real
  attackCooldown :: real
  attackDamage :: real
  lastAttackTime :: real
  skipAnimationWhenFar :: bool
  farDistance :: real
  skipPhysicsWhenVeryFar :: bool
  veryFarDistance :: real
  stateLog :: "(zstate \<times> zstate) list"

text \<open>The constructor \<open>new Zombie(engine, position, properties)\<close>.\<close>

definition new_Zombie :: "vec3 \<Rightarrow> properties \<Rightarrow> zombie" where
  "new_Zombie pos props =
     \<lparr> zombieType = js_or_str (p_type props) ''standard'',
       position = pos,
       enabled = True,
       isAlive = True,
       body_position = pos,
       state = Idle,
       timeInCurrentState = 0,
       timeSinceSpawn = 0,
       speed_walk = (case p_speed props of
                       None \<Rightarrow> 2
                     | Some v \<Rightarrow> if v = 0 then 2 else v * (6 / 10)),
       speed_run = js_or (p_speed props) 3,
       canSeePlayer = False,
       detectionRange = js_or (p_detectionRange props) 15,
       updatePerceptionTime = 0,
       perceptionUpdateRate = fl (2 / 10),
       lastKnownPlayerPosition = None,
       health = js_or (p_health props) 100,
       maxHealth = js_or (p_health props) 100,
       attackRange = 18 / 10,
       attackCooldown = 12 / 10,
       attackDamage = js_or (p_damage props) 20,
       lastAttackTime = 0,
       skipAnimationWhenFar = False,
       farDistance = 50,
       skipPhysicsWhenVeryFar = False,
       veryFarDistance = 80,
       stateLog = [] \<rparr>"

definition optimizeForLargeNumbers :: "zombie \<Rightarrow> zombie" where
  "optimizeForLargeNumbers z =
     z\<lparr> skipAnimationWhenFar := True, farDistance := 50,
        skipPhysicsWhenVeryFar := True, veryFarDistance := 80 \<rparr>"

text \<open>
  \<open>changeState(newState)\<close>: nothing happens when the state is the current one;
  otherwise the state is set, the time in the state restarts, the transition is logged,
  and entering \<open>death\<close> clears \<open>isAlive\<close>.
\<close>

definition changeState :: "zstate \<Rightarrow> zombie \<Rightarrow> zombie" where
  "changeState newState z =
     (if newState = state z then z
      else
        (let z1 = z\<lparr> state := newState, timeInCurrentState := 0,
                      stateLog := stateLog z @ [(state z, newState)] \<rparr>
         in if newState = Death then z1\<lparr> isAlive := False \<rparr> else z1))"

text \<open>\<open>init\<close>: the model and physics registration are external; the rest is here.\<close>

definition init :: "zombie \<Rightarrow> zombie" where
  "init z = changeState Idle (optimizeForLargeNumbers z)"

definition takeDamage :: "real \<Rightarrow> zombie \<Rightarrow> zombie" where
  "takeDamage amount z =
     (let z1 = z\<lparr> health := health z - amount \<rparr>
      in if health z1 \<le> 0 \<and> isAlive z1 then changeState Death z1 else z1)"

definition onPlayerSpotted :: "zombie \<Rightarrow> zombie" where
  "onPlayerSpotted z = changeState Chase z"

text \<open>
  \<open>updatePerception(deltaTime)\<close>.  The argument \<open>p\<close> is \<open>engine.player\<close>:
  the player's position, or \<open>None\<close> when the engine has no player.  The countdown
  \<open>updatePerceptionTime -= deltaTime\<close> is a subtraction of doubles, so its result is
  rounded.
\<close>

definition updatePerception :: "real \<Rightarrow> vec3 option \<Rightarrow> zombie \<Rightarrow> zombie" where
  "updatePerception deltaTime p z =
     (let z1 = z\<lparr> updatePerceptionTime := fl (updatePerceptionTime z - deltaTime) \<rparr>
      in if updatePerceptionTime z1 \<le> 0 then
           (let previouslyCouldSeePlayer = canSeePlayer z1;
                z2 = z1\<lparr> updatePerceptionTime := perceptionUpdateRate z1,
                          canSeePlayer := False \<rparr>
            in case p of
                 None \<Rightarrow> z2
               | Some pp \<Rightarrow>
                   if distanceTo (position z2) pp \<le> detectionRange z2 then
                     (let z3 = z2\<lparr> canSeePlayer := True \<rparr>
                      in if \<not> previouslyCouldSeePlayer \<and> state z3 = Idle
                         then onPlayerSpotted z3 else z3)
                   else z2)
         else z1)"

text \<open>\<open>processIdleState\<close> only turns the agent and plays an animation.\<close>

definition processIdleState :: "real \<Rightarrow> zombie \<Rightarrow> zombie" where
  "processIdleState deltaTime z = z"

text \<open>
  \<open>processChaseState\<close>: remember where the player is while visible; attack when
  close enough (and return); otherwise steer (left out), and fall back to idle after more
  than 8 seconds in the state without seeing the player.
\<close>

definition processChaseState :: "real \<Rightarrow> vec3 option \<Rightarrow> zombie \<Rightarrow> zombie" where
  "processChaseState deltaTime p z =
     (case p of
        None \<Rightarrow> z
      | Some pp \<Rightarrow>
          (let z1 = (if canSeePlayer z then z\<lparr> lastKnownPlayerPosition := Some pp \<rparr> else z)
           in if lastKnownPlayerPosition z1 \<noteq> None
                 \<and> distanceTo (position z1) pp \<le> attackRange z1
              then changeState Attack z1
              else if \<not> canSeePlayer z1 \<and> timeInCurrentState z1 > 8
              then changeState Idle z1
              else z1))"

text \<open>
  The two closures \<open>processAttackState\<close> hands to \<open>setTimeout\<close>, with their
  delays in milliseconds.
\<close>

datatype callback = DealDamage | ReturnToChase

definition processAttackState ::
  "real \<Rightarrow> vec3 option \<Rightarrow> zombie \<Rightarrow> zombie \<times> (real \<times> callback) list" where
  "processAttackState deltaTime p z =
     (case p of
        None \<Rightarrow> (z, [])
      | Some pp \<Rightarrow>
          if distanceTo (position z) pp > attackRange z * (12 / 10)
          then (changeState Chase z, [])
          else if timeSinceSpawn z - lastAttackTime z > attackCooldown z
          then (z\<lparr> lastAttackTime := timeSinceSpawn z \<rparr>,
                [(500, DealDamage), (1200, ReturnToChase)])
          else (z, []))"

definition processStateMachine ::
  "real \<Rightarrow> vec3 option \<Rightarrow> zombie \<Rightarrow> zombie \<times> (real \<times> callback) list" where
  "processStateMachine deltaTime p z =
     (let z1 = (if state z = Idle \<and> canSeePlayer z then changeState Chase z else z)
      in case state z1 of
           Idle \<Rightarrow> (processIdleState deltaTime z1, [])
         | Chase \<Rightarrow> (processChaseState deltaTime p z1, [])
         | Attack \<Rightarrow> processAttackState deltaTime p z1
         | Death \<Rightarrow> (z1, []))"

text \<open>
  \<open>update(deltaTime)\<close>.  The distance to the player is taken once, from the position
  at the start of the call; without a player it is \<open>Infinity\<close>, which exceeds both
  thresholds.
\<close>

definition beyond :: "vec3 option \<Rightarrow> zombie \<Rightarrow> real \<Rightarrow> bool" where
  "beyond p z limit =
     (case p of None \<Rightarrow> True | Some pp \<Rightarrow> distanceTo (position z) pp > limit)"

definition update ::
  "real \<Rightarrow> vec3 option \<Rightarrow> zombie \<Rightarrow> zombie \<times> (real \<times> callback) list" where
  "update deltaTime p z =
     (if \<not> enabled z \<or> \<not> isAlive z then (z, [])
      else
        (let z1 = z\<lparr> timeSinceSpawn := timeSinceSpawn z + deltaTime,
                      timeInCurrentState := timeInCurrentState z + deltaTime \<rparr>;
             far = (skipAnimationWhenFar z1 \<and> beyond p z (farDistance z1));
             r = (if far then
                    (if js_rem (timeSinceSpawn z1) 3 < 1 / 10
                     then processStateMachine deltaTime p (updatePerception deltaTime p z1)
                     else (z1, []))
                  else processStateMachine deltaTime p (updatePerception deltaTime p z1));
             z2 = fst r;
             veryFar = (skipPhysicsWhenVeryFar z2 \<and> beyond p z (veryFarDistance z2))
         in (if veryFar then z2 else z2\<lparr> position := body_position z2 \<rparr>, snd r)))"

section \<open>One agent in its world\<close>

text \<open>
  Modelled from the spec: the player object, whose class is not among the sources.  The
  spec gives it a position that agents read and \<open>takeDamage(amount, sourceAgent)\<close>
  that agents call.  The model keeps the position, whether the object has a
  \<open>takeDamage\<close> method, and the amounts \<open>takeDamage\<close> was called with, in order.
\<close>

record player =
  player_pos :: vec3
  canTakeDamage :: bool
  damageTaken :: "real list"

text \<open>
  The surroundings of one agent: the player object, whether \<open>engine.player\<close> refers
  to it, the pending \<open>setTimeout\<close> callbacks with the wall-clock time (milliseconds)
  at which each falls due, and the wall clock.
\<close>

record world =
  agent :: zombie
  thePlayer :: player
  enginePlayer :: bool
  timeouts :: "(real \<times> callback) list"
  now :: real

definition enginePlayerPosition :: "world \<Rightarrow> vec3 option" where
  "enginePlayerPosition w =
     (if enginePlayer w then Some (player_pos (thePlayer w)) else None)"

text \<open>
  The first closure of \<open>processAttackState\<close>: it reads the agent's state and the
  distance when it runs, and calls \<open>player.takeDamage(20, this)\<close> on the player object
  the closure captured.
\<close>

definition dealDamage :: "world \<Rightarrow> world" where
  "dealDamage w =
     (if state (agent w) = Attack \<and> canTakeDamage (thePlayer w)
         \<and> distanceTo (position (agent w)) (player_pos (thePlayer w))
             \<le> attackRange (agent w)
      then w\<lparr> thePlayer := (thePlayer w)\<lparr> damageTaken := damageTaken (thePlayer w) @ [20] \<rparr> \<rparr>
      else w)"

text \<open>The second closure: back to \<open>chase\<close> if still attacking.\<close>

definition returnToChase :: "world \<Rightarrow> world" where
  "returnToChase w =
     (if state (agent w) = Attack then w\<lparr> agent := changeState Chase (agent w) \<rparr> else w)"

fun run_callback :: "callback \<Rightarrow> world \<Rightarrow> world" where
  "run_callback DealDamage w = dealDamage w"
| "run_callback ReturnToChase w = returnToChase w"

text \<open>
  What can happen to the world, one event at a time (JavaScript runs them one after the
  other): the entity system calls \<open>update\<close>; something calls \<open>takeDamage\<close> on the
  agent; a pending callback that has fallen due runs; wall-clock time passes; the player
  moves; the physics service moves the body; the manager enables or disables the agent;
  the engine gains or loses its player.
\<close>

datatype event =
    Update real
  | Hit real
  | Fire nat
  | Elapse real
  | MovePlayer vec3
  | Physics vec3
  | SetEnabled bool
  | SetPlayer bool

fun step :: "event \<Rightarrow> world \<Rightarrow> world" where
  "step (Update deltaTime) w =
     (let r = update deltaTime (enginePlayerPosition w) (agent w)
      in w\<lparr> agent := fst r,
            timeouts := timeouts w @ map (\<lambda>(delay, cb). (now w + delay, cb)) (snd r) \<rparr>)"
| "step (Hit amount) w = w\<lparr> agent := takeDamage amount (agent w) \<rparr>"
| "step (Fire i) w =
     (if i < length (timeouts w) \<and> fst (timeouts w ! i) \<le> now w
      then run_callback (snd (timeouts w ! i))
             (w\<lparr> timeouts := take i (timeouts w) @ drop (Suc i) (timeouts w) \<rparr>)
      else w)"
| "step (Elapse d) w = w\<lparr> now := now w + d \<rparr>"
| "step (MovePlayer pos) w = w\<lparr> thePlayer := (thePlayer w)\<lparr> player_pos := pos \<rparr> \<rparr>"
| "step (Physics pos) w = w\<lparr> agent := (agent w)\<lparr> body_position := pos \<rparr> \<rparr>"
| "step (SetEnabled b) w = w\<lparr> agent := (agent w)\<lparr> enabled := b \<rparr> \<rparr>"
| "step (SetPlayer b) w = w\<lparr> enginePlayer := b \<rparr>"

text \<open>Time does not run backwards.\<close>

fun valid_event :: "event \<Rightarrow> bool" where
  "valid_event (Update deltaTime) = (0 \<le> deltaTime)"
| "valid_event (Elapse d) = (0 \<le> d)"
| "valid_event _ = True"

fun run :: "event list \<Rightarrow> world \<Rightarrow> world" where
  "run [] w = w"
| "run (e # es) w = run es (step e w)"

text \<open>A freshly created agent (constructor, then \<open>init\<close>) with nothing pending.\<close>

definition spawn_world :: "vec3 \<Rightarrow> properties \<Rightarrow> player \<Rightarrow> bool \<Rightarrow> real \<Rightarrow> world" where
  "spawn_world pos props pl attached t =
     \<lparr> agent = init (new_Zombie pos props), thePlayer = pl, enginePlayer = attached,
       timeouts = [], now = t \<rparr>"

text \<open>The worlds the code can be in: those that events lead to from a fresh agent.\<close>

inductive reachable :: "world \<Rightarrow> bool" where
  spawn: "reachable (spawn_world pos props pl attached t)"
| event: "reachable w \<Longrightarrow> valid_event e \<Longrightarrow> reachable (step e w)"

section \<open>EnemyManager.js: archetypes and spawn areas\<close>

text \<open>An enemy type as \<open>configure\<close> stores it, and as the map data gives it.\<close>

record enemy_type =
  type_id :: string
  type_weight :: real
  type_health :: real
  type_speed :: real
  type_damage :: real
  type_detectionRange :: real

record type_data =
  td_id :: string
  td_weight :: "real option"
  td_health :: "real option"
  td_speed :: "real option"
  td_damage :: "real option"
  td_detectionRange :: "real option"

text \<open>
  \<open>enemyTypes\<close> is a JavaScript \<open>Map\<close>: its values are iterated in the order the
  keys were first set, and setting a key again keeps its place.
\<close>

fun map_set :: "string \<Rightarrow> 'v \<Rightarrow> (string \<times> 'v) list \<Rightarrow> (string \<times> 'v) list" where
  "map_set k v [] = [(k, v)]"
| "map_set k v ((k', v') # m) = (if k' = k then (k, v) # m else (k', v') # map_set k v m)"

definition map_values :: "(string \<times> 'v) list \<Rightarrow> 'v list" where
  "map_values m = map snd m"

definition register_type :: "type_data \<Rightarrow> enemy_type" where
  "register_type typeData =
     \<lparr> type_id = td_id typeData,
       type_weight = js_or (td_weight typeData) 1,
       type_health = js_or (td_health typeData) 100,
       type_speed = js_or (td_speed typeData) 3,
       type_damage = js_or (td_damage typeData) 20,
       type_detectionRange = js_or (td_detectionRange typeData) 15 \<rparr>"

text \<open>
  A spawn area as \<open>configureSpawnAreas\<close> builds it: the \<open>type\<close> string decides
  which further fields the object has.
\<close>

datatype area_shape =
    Circle vec3 real
  | Rectangle vec3 real real
  | Other string

record spawn_area =
  area_id :: string
  area_shape :: area_shape
  area_weight :: real
  minDistance :: real
  maxDistance :: real

record vec_data =
  c_x :: "real option"
  c_y :: "real option"
  c_z :: "real option"

record size_data =
  s_x :: "real option"
  s_z :: "real option"

record area_data =
  ad_id :: string
  ad_type :: "string option"
  ad_weight :: "real option"
  ad_minDistance :: "real option"
  ad_maxDistance :: "real option"
  ad_center :: "vec_data option"
  ad_radius :: "real option"
  ad_size :: "size_data option"

definition center_of :: "vec_data \<Rightarrow> vec3" where
  "center_of c = \<lparr> vx = js_or (c_x c) 0, vy = js_or (c_y c) 0, vz = js_or (c_z c) 0 \<rparr>"

text \<open>The shape of one area; reading \<open>center\<close> or \<open>size\<close> of \<open>undefined\<close> throws.\<close>

definition shape_of :: "area_data \<Rightarrow> js_error + area_shape" where
  "shape_of areaData =
     (let ty = js_or_str (ad_type areaData) ''circle''
      in if ty = ''circle'' then
           (case ad_center areaData of
              None \<Rightarrow> Inl TypeError
            | Some c \<Rightarrow> Inr (Circle (center_of c) (js_or (ad_radius areaData) 30)))
         else if ty = ''rectangle'' then
           (case ad_center areaData of
              None \<Rightarrow> Inl TypeError
            | Some c \<Rightarrow>
                (case ad_size areaData of
                   None \<Rightarrow> Inl TypeError
                 | Some sz \<Rightarrow> Inr (Rectangle (center_of c) (js_or (s_x sz) 60) (js_or (s_z sz) 60))))
         else Inr (Other ty))"

definition make_area :: "area_data \<Rightarrow> js_error + spawn_area" where
  "make_area areaData =
     (case shape_of areaData of
        Inl e \<Rightarrow> Inl e
      | Inr sh \<Rightarrow>
          Inr \<lparr> area_id = ad_id areaData,
                area_shape = sh,
                area_weight = js_or (ad_weight areaData) 1,
                minDistance = js_or (ad_minDistance areaData) 30,
                maxDistance = js_or (ad_maxDistance areaData) 80 \<rparr>)"

section \<open>EnemyManager.js: the manager\<close>

text \<open>
  The manager holds references to agents, and the same agent is referred to from the
  preloaded roster, the active roster and the entity registry; so agents live in a store
  (\<open>store s ! a\<close> is the agent with address \<open>a\<close>) and the rosters hold addresses.

  \<open>intervals\<close> are the timers \<open>setInterval\<close> created: each with the \<open>index\<close>
  variable of its closure and whether \<open>clearInterval\<close> was called on it.  The counts
  of the configuration (population size, initial active count, activation rate) are
  natural numbers.
\<close>

text \<open>
  Modelled from the spec: the entity registry \<open>engine.entityManager\<close>, whose code is
  not among the sources.  The spec gives it \<open>addEntity(agent)\<close> and
  \<open>removeEntity(agent)\<close>; the model keeps the agents added and not removed, in the
  order they were added.
\<close>

type_synonym entity_registry = "nat list"

definition addEntity :: "nat \<Rightarrow> entity_registry \<Rightarrow> entity_registry" where
  "addEntity a reg = reg @ [a]"

definition removeEntity :: "nat \<Rightarrow> entity_registry \<Rightarrow> entity_registry" where
  "removeEntity a reg = removeAll a reg"

record manager_config =
  maxEnemies :: nat
  preloadAtStart :: bool
  initialActiveCount :: nat
  activationRate :: nat
  activationInterval :: real

record config_data =
  cd_maxEnemies :: "nat option"
  cd_preloadAtStart :: "bool option"
  cd_initialActiveCount :: "nat option"
  cd_activationRate :: "nat option"
  cd_activationInterval :: "real option"
  cd_enemyTypes :: "type_data list option"

record interval =
  iv_index :: nat
  iv_cleared :: bool

record manager =
  config :: manager_config
  enemyTypes :: "(string \<times> enemy_type) list"
  spawnAreas :: "spawn_area list"
  totalSpawnWeight :: real
  mgr_enabled :: bool
  preloadComplete :: bool
  store :: "zombie list"
  enemies :: "nat list"
  preloadedZombies :: "nat list"
  registry :: entity_registry
  intervals :: "interval list"

definition new_EnemyManager :: manager where
  "new_EnemyManager =
     \<lparr> config = \<lparr> maxEnemies = 100, preloadAtStart = True, initialActiveCount = 20,
                  activationRate = 2, activationInterval = 1000 \<rparr>,
       enemyTypes = [],
       spawnAreas = [],
       totalSpawnWeight = 0,
       mgr_enabled = True,
       preloadComplete = False,
       store = [],
       enemies = [],
       preloadedZombies = [],
       registry = [],
       intervals = [] \<rparr>"

definition registerDefaultEnemyTypes :: "manager \<Rightarrow> manager" where
  "registerDefaultEnemyTypes s =
     s\<lparr> enemyTypes := map_set ''standard''
           \<lparr> type_id = ''standard'', type_weight = 1, type_health = 100, type_speed = 3,
             type_damage = 20, type_detectionRange = 15 \<rparr> (enemyTypes s) \<rparr>"

definition init_manager :: "manager \<Rightarrow> manager" where
  "init_manager s = registerDefaultEnemyTypes s"

text \<open>\<open>{...this.config, ...config}\<close>: a property the argument has replaces the old one.\<close>

definition merge_config :: "manager_config \<Rightarrow> config_data \<Rightarrow> manager_config" where
  "merge_config old c =
     \<lparr> maxEnemies = (case cd_maxEnemies c of None \<Rightarrow> maxEnemies old | Some v \<Rightarrow> v),
       preloadAtStart = (case cd_preloadAtStart c of None \<Rightarrow> preloadAtStart old | Some v \<Rightarrow> v),
       initialActiveCount =
         (case cd_initialActiveCount c of None \<Rightarrow> initialActiveCount old | Some v \<Rightarrow> v),
       activationRate = (case cd_activationRate c of None \<Rightarrow> activationRate old | Some v \<Rightarrow> v),
       activationInterval =
         (case cd_activationInterval c of None \<Rightarrow> activationInterval old | Some v \<Rightarrow> v) \<rparr>"

fun register_types :: "type_data list \<Rightarrow> (string \<times> enemy_type) list \<Rightarrow> (string \<times> enemy_type) list" where
  "register_types [] m = m"
| "register_types (typeData # rest) m =
     register_types rest (map_set (td_id typeData) (register_type typeData) m)"

definition configure :: "config_data \<Rightarrow> manager \<Rightarrow> manager" where
  "configure c s =
     (let s1 = s\<lparr> config := merge_config (config s) c \<rparr>
      in case cd_enemyTypes c of
           None \<Rightarrow> s1
         | Some tds \<Rightarrow>
             if length tds > 0 then s1\<lparr> enemyTypes := register_types tds [] \<rparr> else s1)"

fun configure_areas_loop :: "area_data list \<Rightarrow> manager \<Rightarrow> js_error + manager" where
  "configure_areas_loop [] s = Inr s"
| "configure_areas_loop (areaData # rest) s =
     (case make_area areaData of
        Inl e \<Rightarrow> Inl e
      | Inr area \<Rightarrow>
          configure_areas_loop rest
            (s\<lparr> spawnAreas := spawnAreas s @ [area],
                totalSpawnWeight := fl (totalSpawnWeight s + area_weight area) \<rparr>))"

definition configureSpawnAreas :: "area_data list \<Rightarrow> manager \<Rightarrow> js_error + manager" where
  "configureSpawnAreas spawnAreaData s =
     configure_areas_loop spawnAreaData (s\<lparr> spawnAreas := [], totalSpawnWeight := 0 \<rparr>)"

subsection \<open>Weighted selection and positions\<close>

text \<open>
  The loop of \<open>selectWeightedSpawnArea\<close>: \<open>weightSum\<close> is the sum so far, a sum of
  doubles like the total that \<open>configureSpawnAreas\<close> accumulates; the result is
  \<open>None\<close> when the loop ends without returning.
\<close>

fun area_loop :: "real \<Rightarrow> real \<Rightarrow> spawn_area list \<Rightarrow> spawn_area option" where
  "area_loop randomValue weightSum [] = None"
| "area_loop randomValue weightSum (area # rest) =
     (let weightSum' = fl (weightSum + area_weight area)
      in if randomValue \<le> weightSum' then Some area
         else area_loop randomValue weightSum' rest)"

text \<open>
  \<open>selectWeightedSpawnArea()\<close>, with the number \<open>u\<close> that \<open>Math.random()\<close>
  returned.  \<open>this.spawnAreas[0]\<close> of an empty array is \<open>undefined\<close>.
\<close>

definition selectWeightedSpawnArea :: "real \<Rightarrow> manager \<Rightarrow> spawn_area option" where
  "selectWeightedSpawnArea u s =
     (case area_loop (fl (u * totalSpawnWeight s)) 0 (spawnAreas s) of
        Some area \<Rightarrow> Some area
      | None \<Rightarrow> (case spawnAreas s of [] \<Rightarrow> None | first # _ \<Rightarrow> Some first))"

text \<open>
  The positions are computed in doubles: every product and sum below is rounded, and
  \<open>Math.PI\<close>, \<open>Math.cos\<close> and \<open>Math.sin\<close> are the doubles nearest to the exact
  values.

  \<open>getDefaultSpawnPosition(playerPosition)\<close>, with the two numbers \<open>u1\<close>,
  \<open>u2\<close> that the two calls of \<open>Math.random()\<close> returned, in the order of the calls.
\<close>

definition getDefaultSpawnPosition :: "vec3 \<Rightarrow> real \<Rightarrow> real \<Rightarrow> vec3" where
  "getDefaultSpawnPosition playerPosition u1 u2 =
     (let angle = fl (fl (u1 * fl pi) * 2);
          distance = fl (30 + fl (u2 * 50))
      in \<lparr> vx = fl (vx playerPosition + fl (fl (cos angle) * distance)),
           vy = vy playerPosition,
           vz = fl (vz playerPosition + fl (fl (sin angle) * distance)) \<rparr>)"

text \<open>
  \<open>getPositionInArea(area, playerPosition)\<close>, with the two numbers \<open>u1\<close>,
  \<open>u2\<close> that the two calls of \<open>Math.random()\<close> returned, in the order of the calls.
\<close>

definition getPositionInArea :: "spawn_area \<Rightarrow> vec3 \<Rightarrow> real \<Rightarrow> real \<Rightarrow> vec3" where
  "getPositionInArea area playerPosition u1 u2 =
     (case area_shape area of
        Circle center radius \<Rightarrow>
          (let angle = fl (fl (u1 * fl pi) * 2);
               distanceFromCenter = fl (u2 * radius)
           in \<lparr> vx = fl (vx center + fl (fl (cos angle) * distanceFromCenter)),
                vy = vy center,
                vz = fl (vz center + fl (fl (sin angle) * distanceFromCenter)) \<rparr>)
      | Rectangle center size_x size_z \<Rightarrow>
          \<lparr> vx = fl (vx center + fl (fl (fl (fl (u1 * 2) - 1) * size_x) / 2)),
            vy = vy center,
            vz = fl (vz center + fl (fl (fl (fl (u2 * 2) - 1) * size_z) / 2)) \<rparr>
      | Other ty \<Rightarrow> getDefaultSpawnPosition playerPosition u1 u2)"

text \<open>The numbers drawn for one agent of the preload, and the player's position then.\<close>

record draws =
  d_type :: real
  d_area :: real
  d_first :: real
  d_second :: real
  d_player :: vec3

definition getSpawnPosition :: "draws \<Rightarrow> manager \<Rightarrow> js_error + vec3" where
  "getSpawnPosition d s =
     (if length (spawnAreas s) = 0
      then Inr (getDefaultSpawnPosition (d_player d) (d_first d) (d_second d))
      else (case selectWeightedSpawnArea (d_area d) s of
              None \<Rightarrow> Inl TypeError
            | Some area \<Rightarrow> Inr (getPositionInArea area (d_player d) (d_first d) (d_second d))))"

text \<open>
  The loop of \<open>getRandomEnemyType\<close>, and the function with its draw \<open>u\<close>; the
  weights are summed in doubles here too.
\<close>

fun type_loop :: "real \<Rightarrow> real \<Rightarrow> enemy_type list \<Rightarrow> enemy_type option" where
  "type_loop randomValue currentWeight [] = None"
| "type_loop randomValue currentWeight (ty # rest) =
     (let currentWeight' = fl (currentWeight + type_weight ty)
      in if randomValue \<le> currentWeight' then Some ty
         else type_loop randomValue currentWeight' rest)"

definition getRandomEnemyType :: "real \<Rightarrow> manager \<Rightarrow> enemy_type option" where
  "getRandomEnemyType u s =
     (let totalWeight =
            foldl (\<lambda>total ty. fl (total + type_weight ty)) 0 (map_values (enemyTypes s));
          randomValue = fl (u * totalWeight)
      in case type_loop randomValue 0 (map_values (enemyTypes s)) of
           Some ty \<Rightarrow> Some ty
         | None \<Rightarrow> (case map_values (enemyTypes s) of [] \<Rightarrow> None | first # _ \<Rightarrow> Some first))"

subsection \<open>Preload, activation, tick and clear\<close>

definition preload_one :: "draws \<Rightarrow> manager \<Rightarrow> js_error + manager" where
  "preload_one d s =
     (case getRandomEnemyType (d_type d) s of
        None \<Rightarrow> Inl TypeError
      | Some zType \<Rightarrow>
          (case getSpawnPosition d s of
             Inl e \<Rightarrow> Inl e
           | Inr spawnPoint \<Rightarrow>
               (let zombie =
                      (init (new_Zombie spawnPoint
                         \<lparr> p_health = Some (type_health zType),
                           p_speed = Some (type_speed zType),
                           p_damage = Some (type_damage zType),
                           p_detectionRange = Some (type_detectionRange zType),
                           p_type = Some (type_id zType) \<rparr>))\<lparr> enabled := False \<rparr>
                in Inr (s\<lparr> store := store s @ [zombie],
                           preloadedZombies := preloadedZombies s @ [length (store s)] \<rparr>))))"

text \<open>The loop of \<open>preloadZombies\<close>: \<open>i\<close> counts up, \<open>n\<close> rounds remain.\<close>

fun preload_loop :: "(nat \<Rightarrow> draws) \<Rightarrow> nat \<Rightarrow> nat \<Rightarrow> manager \<Rightarrow> js_error + manager" where
  "preload_loop ds i 0 s = Inr s"
| "preload_loop ds i (Suc n) s =
     (case preload_one (ds i) s of
        Inl e \<Rightarrow> Inl e
      | Inr s' \<Rightarrow> preload_loop ds (Suc i) n s')"

text \<open>
  \<open>preloadZombies()\<close>: \<open>hasPlayer\<close> says whether \<open>engine.player\<close> is set; the
  result is the boolean the promise resolves to, with the new state.
\<close>

definition preloadZombies :: "(nat \<Rightarrow> draws) \<Rightarrow> bool \<Rightarrow> manager \<Rightarrow> js_error + bool \<times> manager" where
  "preloadZombies ds hasPlayer s =
     (if \<not> hasPlayer then Inr (False, s)
      else (case preload_loop ds 0 (maxEnemies (config s)) s of
              Inl e \<Rightarrow> Inl e
            | Inr s' \<Rightarrow> Inr (True, s'\<lparr> preloadComplete := True \<rparr>)))"

text \<open>Enable one agent, add it to the registry, push it on the active roster.\<close>

definition activate :: "nat \<Rightarrow> manager \<Rightarrow> manager" where
  "activate a s =
     s\<lparr> store := (store s)[a := (store s ! a)\<lparr> enabled := True \<rparr>],
        registry := addEntity a (registry s),
        enemies := enemies s @ [a] \<rparr>"

definition scheduleRemainingZombies :: "nat \<Rightarrow> manager \<Rightarrow> manager" where
  "scheduleRemainingZombies startIndex s =
     s\<lparr> intervals := intervals s @ [\<lparr> iv_index = startIndex, iv_cleared = False \<rparr>] \<rparr>"

definition activatePreloadedZombies :: "manager \<Rightarrow> manager" where
  "activatePreloadedZombies s =
     (let initialCount = min (initialActiveCount (config s)) (length (preloadedZombies s))
      in scheduleRemainingZombies initialCount
           (foldl (\<lambda>s' a. activate a s') s (take initialCount (preloadedZombies s))))"

text \<open>
  The inner loop of the interval's callback: \<open>n\<close> rounds of the batch remain, and
  \<open>index\<close> is the closure's variable; the result is its new value and the new state.
\<close>

fun activation_batch :: "nat \<Rightarrow> nat \<Rightarrow> manager \<Rightarrow> nat \<times> manager" where
  "activation_batch 0 index s = (index, s)"
| "activation_batch (Suc n) index s =
     (if index < length (preloadedZombies s)
      then activation_batch n (Suc index) (activate (preloadedZombies s ! index) s)
      else (index, s))"

text \<open>
  One firing of the interval \<open>k\<close>.  An interval that was cleared (or never created)
  does not fire.
\<close>

definition fireInterval :: "nat \<Rightarrow> manager \<Rightarrow> manager" where
  "fireInterval k s =
     (if k < length (intervals s) \<and> \<not> iv_cleared (intervals s ! k) then
        (let index = iv_index (intervals s ! k)
         in if index \<ge> length (preloadedZombies s)
            then s\<lparr> intervals := (intervals s)[k := (intervals s ! k)\<lparr> iv_cleared := True \<rparr>] \<rparr>
            else (let r = activation_batch (activationRate (config s)) index s
                  in (snd r)\<lparr> intervals :=
                        (intervals (snd r))[k := (intervals (snd r) ! k)\<lparr> iv_index := fst r \<rparr>] \<rparr>))
      else s)"

text \<open>\<open>update(deltaTime)\<close> of the manager.\<close>

definition mgr_update :: "real \<Rightarrow> manager \<Rightarrow> manager" where
  "mgr_update deltaTime s =
     (if \<not> mgr_enabled s then s
      else if \<not> preloadComplete s then s
      else s\<lparr> enemies := filter (\<lambda>enemy. isAlive (store s ! enemy)) (enemies s) \<rparr>)"

definition clear :: "manager \<Rightarrow> manager" where
  "clear s =
     s\<lparr> registry := foldl (\<lambda>reg enemy. removeEntity enemy reg) (registry s) (enemies s),
        enemies := [],
        preloadedZombies := [],
        preloadComplete := False \<rparr>"

text \<open>Something (a weapon) calls \<open>takeDamage\<close> on the agent with address \<open>a\<close>.\<close>

definition damage_agent :: "nat \<Rightarrow> real \<Rightarrow> manager \<Rightarrow> manager" where
  "damage_agent a amount s =
     s\<lparr> store := (store s)[a := takeDamage amount (store s ! a)] \<rparr>"

section \<open>Notions used to state the properties\<close>


text \<open>
  The staged activation under way: the rosters of \<open>s\<close> are those of \<open>s0\<close>, the
  interval \<open>k\<close> has reached \<open>idx\<close>, it is cleared only when the preloaded roster is
  exhausted, and the active roster is the first \<open>idx\<close> preloaded agents.
\<close>

definition staged :: "nat \<Rightarrow> nat \<Rightarrow> manager \<Rightarrow> manager \<Rightarrow> bool" where
  "staged k idx s0 s \<longleftrightarrow>
     preloadedZombies s = preloadedZombies s0 \<and> config s = config s0
     \<and> k < length (intervals s) \<and> iv_index (intervals s ! k) = idx
     \<and> idx \<le> length (preloadedZombies s0)
     \<and> (iv_cleared (intervals s ! k) \<longrightarrow> idx = length (preloadedZombies s0))
     \<and> enemies s = take idx (preloadedZombies s0)"

text \<open>
  What holds of the agent in every reachable world: it is alive exactly when its state is
  not \<open>death\<close>; the perception rate is the double 0.2 and the countdown is at most
  that; and it is not idle while it sees the player.
\<close>

definition agent_ok :: "zombie \<Rightarrow> bool" where
  "agent_ok z \<longleftrightarrow>
     (isAlive z \<longleftrightarrow> state z \<noteq> Death)
     \<and> perceptionUpdateRate z = fl (2 / 10)
     \<and> updatePerceptionTime z \<le> fl (2 / 10)
     \<and> \<not> (state z = Idle \<and> canSeePlayer z)"





subsection \<open>Concrete inputs\<close>

text \<open>A circular area of radius 30 as the example map gives it, and as it is stored.\<close>

definition circle_data :: "string \<Rightarrow> real \<Rightarrow> real \<Rightarrow> real \<Rightarrow> area_data" where
  "circle_data name x z w =
     \<lparr> ad_id = name, ad_type = Some ''circle'', ad_weight = Some w,
       ad_minDistance = Some 30, ad_maxDistance = Some 80,
       ad_center = Some \<lparr> c_x = Some x, c_y = Some 0, c_z = Some z \<rparr>,
       ad_radius = Some 30, ad_size = None \<rparr>"

definition circle_area :: "string \<Rightarrow> real \<Rightarrow> real \<Rightarrow> real \<Rightarrow> spawn_area" where
  "circle_area name x z w =
     \<lparr> area_id = name, area_shape = Circle \<lparr> vx = x, vy = 0, vz = z \<rparr> 30, area_weight = w,
       minDistance = 30, maxDistance = 80 \<rparr>"


text \<open>A manager with two areas of weight \<open>w\<close> each and the cached total \<open>cached\<close>.\<close>

definition two_areas :: "real \<Rightarrow> real \<Rightarrow> manager" where
  "two_areas w cached =
     new_EnemyManager\<lparr> spawnAreas := [circle_area ''north'' 0 (- 50) w,
                                         circle_area ''south'' 0 50 w],
                        totalSpawnWeight := cached \<rparr>"

text \<open>An archetype of weight 0, and a configuration that only sets the archetypes.\<close>

definition zero_weight_type :: type_data where
  "zero_weight_type =
     \<lparr> td_id = ''ghost'', td_weight = Some 0, td_health = Some 70,
       td_speed = Some 5, td_damage = Some 15, td_detectionRange = Some 20 \<rparr>"

definition only_types :: "type_data list \<Rightarrow> config_data" where
  "only_types tds =
     \<lparr> cd_maxEnemies = None, cd_preloadAtStart = None, cd_initialActiveCount = None,
       cd_activationRate = None, cd_activationInterval = None, cd_enemyTypes = Some tds \<rparr>"

text \<open>A population of \<open>n\<close>, \<open>k\<close> of them active at first, \<open>r\<close> more per firing.\<close>

definition population :: "nat \<Rightarrow> nat \<Rightarrow> nat \<Rightarrow> config_data" where
  "population n k r =
     \<lparr> cd_maxEnemies = Some n, cd_preloadAtStart = None, cd_initialActiveCount = Some k,
       cd_activationRate = Some r, cd_activationInterval = None, cd_enemyTypes = None \<rparr>"

text \<open>Every draw of \<open>Math.random()\<close> is 0, and the player stands at the origin.\<close>

definition zero_draws :: "nat \<Rightarrow> draws" where
  "zero_draws i =
     \<lparr> d_type = 0, d_area = 0, d_first = 0, d_second = 0,
       d_player = \<lparr> vx = 0, vy = 0, vz = 0 \<rparr> \<rparr>"

text \<open>
  The origin; the properties of the archetypes \<open>standard\<close> and \<open>tank\<close> of the
  example map; a player on the x axis that can take damage and has taken none.
\<close>

definition origin :: vec3 where
  "origin = \<lparr> vx = 0, vy = 0, vz = 0 \<rparr>"

definition standard :: properties where
  "standard =
     \<lparr> p_health = Some 100, p_speed = Some 3, p_damage = Some 20,
       p_detectionRange = Some 15, p_type = Some ''standard'' \<rparr>"

definition tank :: properties where
  "tank =
     \<lparr> p_health = Some 200, p_speed = Some 2, p_damage = Some 35,
       p_detectionRange = Some 12, p_type = Some ''tank'' \<rparr>"

definition player_at :: "real \<Rightarrow> player" where
  "player_at d =
     \<lparr> player_pos = \<lparr> vx = d, vy = 0, vz = 0 \<rparr>, canTakeDamage = True, damageTaken = [] \<rparr>"




section \<open>Rounding to binary64: sign, monotonicity and exact values\<close>

text \<open>
  The rounding is odd and monotone, it keeps every number that is a double, and on a
  number whose binade is known it is the rounding of the significand.
\<close>

text \<open>The powers of two and the binade, in terms of the real power and logarithm.\<close>

lemma pow2_powr: "pow2 e = 2 powr of_int e"
proof (cases "0 \<le> e")
  case True
  then show ?thesis using powr_realpow [of 2 "nat e"] by (simp add: pow2_def)
next
  case False
  then have "2 powr real_of_int e = 1 / 2 powr real_of_int (- e)"
    by (simp add: powr_minus divide_inverse)
  also have "2 powr real_of_int (- e) = 2 ^ nat (- e)"
    using False powr_realpow [of 2 "nat (- e)"] by simp
  finally show ?thesis using False by (simp add: pow2_def)
qed

lemma binade_bounds:
  assumes "x \<noteq> 0"
  shows "pow2 (binade x) \<le> \<bar>x\<bar>" and "\<bar>x\<bar> < pow2 (binade x + 1)"
proof -
  have "pow2 (binade x) \<le> \<bar>x\<bar> \<and> \<bar>x\<bar> < pow2 (binade x + 1)"
  proof (cases "1 \<le> \<bar>x\<bar>")
    case True
    let ?n = "\<lfloor>\<bar>x\<bar>\<rfloor>"
    from True have n: "0 < ?n" by simp
    from bitlen_bounds [OF n] have b: "2 ^ nat (bitlen ?n - 1) \<le> ?n" "?n < 2 ^ nat (bitlen ?n)"
      by simp_all
    from n have k: "1 \<le> bitlen ?n" by (auto simp: bitlen_alt_def)
    from b(1) have "real_of_int (2 ^ nat (bitlen ?n - 1)) \<le> of_int ?n" by (simp only: of_int_le_iff)
    also have "\<dots> \<le> \<bar>x\<bar>" by simp
    finally have lo: "pow2 (bitlen ?n - 1) \<le> \<bar>x\<bar>" using k by (simp add: pow2_def)
    from b(2) have "?n + 1 \<le> 2 ^ nat (bitlen ?n)" by simp
    then have "real_of_int (?n + 1) \<le> of_int (2 ^ nat (bitlen ?n))" by (simp only: of_int_le_iff)
    moreover have "\<bar>x\<bar> < of_int (?n + 1)" by linarith
    ultimately have "\<bar>x\<bar> < of_int (2 ^ nat (bitlen ?n))" by (rule less_le_trans [rotated])
    then have hi: "\<bar>x\<bar> < pow2 (bitlen ?n)" using k by (simp add: pow2_def)
    from lo hi True show ?thesis by (simp add: binade_def)
  next
    case False
    let ?y = "1 / \<bar>x\<bar>"
    let ?m = "\<lceil>?y\<rceil> - 1"
    from assms False have x: "0 < \<bar>x\<bar>" "\<bar>x\<bar> < 1" by simp_all
    then have y: "1 < ?y" by simp
    then have "2 \<le> \<lceil>?y\<rceil>" by linarith
    then have m: "0 < ?m" by simp
    from bitlen_bounds [OF m] have b: "2 ^ nat (bitlen ?m - 1) \<le> ?m" "?m < 2 ^ nat (bitlen ?m)"
      by simp_all
    from m have k: "1 \<le> bitlen ?m" by (auto simp: bitlen_alt_def)
    from b(2) have "\<lceil>?y\<rceil> \<le> 2 ^ nat (bitlen ?m)" by simp
    then have "real_of_int \<lceil>?y\<rceil> \<le> of_int (2 ^ nat (bitlen ?m))" by (simp only: of_int_le_iff)
    moreover have "?y \<le> of_int \<lceil>?y\<rceil>" by linarith
    ultimately have "?y \<le> of_int (2 ^ nat (bitlen ?m))" by (rule order_trans [rotated])
    then have "?y \<le> 2 ^ nat (bitlen ?m)" by simp
    with x(1) have "1 \<le> 2 ^ nat (bitlen ?m) * \<bar>x\<bar>" by (simp add: pos_divide_le_eq)
    then have lo: "1 / 2 ^ nat (bitlen ?m) \<le> \<bar>x\<bar>"
      by (simp add: pos_divide_le_eq mult.commute)
    from b(1) have "real_of_int (2 ^ nat (bitlen ?m - 1)) \<le> of_int ?m" by (simp only: of_int_le_iff)
    moreover have "of_int ?m < ?y" by linarith
    ultimately have "of_int (2 ^ nat (bitlen ?m - 1)) < ?y" by (rule le_less_trans)
    then have "2 ^ nat (bitlen ?m - 1) < ?y" by simp
    with x(1) have "2 ^ nat (bitlen ?m - 1) * \<bar>x\<bar> < 1" by (simp add: pos_less_divide_eq)
    then have hi: "\<bar>x\<bar> < 1 / 2 ^ nat (bitlen ?m - 1)"
      by (simp add: pos_less_divide_eq mult.commute)
    have p1: "pow2 (- bitlen ?m) = 1 / 2 ^ nat (bitlen ?m)" using k by (simp add: pow2_def)
    have p2: "pow2 (1 - bitlen ?m) = 1 / 2 ^ nat (bitlen ?m - 1)"
    proof (cases "bitlen ?m = 1")
      case True
      then show ?thesis by (simp add: pow2_def)
    next
      case False
      with k have "\<not> 0 \<le> 1 - bitlen ?m" by simp
      moreover have "nat (- (1 - bitlen ?m)) = nat (bitlen ?m - 1)" by simp
      ultimately show ?thesis by (simp add: pow2_def)
    qed
    from lo hi False show ?thesis by (simp add: binade_def p1 p2)
  qed
  then show "pow2 (binade x) \<le> \<bar>x\<bar>" and "\<bar>x\<bar> < pow2 (binade x + 1)" by simp_all
qed

lemma binade_log: "x \<noteq> 0 \<Longrightarrow> binade x = \<lfloor>log 2 \<bar>x\<bar>\<rfloor>"
  using binade_bounds [of x] floor_log_eq_powr_iff [of "\<bar>x\<bar>" 2 "binade x"]
  by (simp add: pow2_powr)

lemma fl_exponent_log: "x \<noteq> 0 \<Longrightarrow> fl_exponent x = max (\<lfloor>log 2 \<bar>x\<bar>\<rfloor> - 52) (- 1074)"
  by (simp add: fl_exponent_def binade_log)

lemma pow2_pos [simp]: "0 < pow2 e"
  by (simp add: pow2_powr)

lemma pow2_add: "pow2 (a + b) = pow2 a * pow2 b"
  by (simp add: pow2_powr powr_add)

lemma pow2_0 [simp]: "pow2 0 = 1"
  by (simp add: pow2_powr)

lemma pow2_nat: "pow2 (int n) = 2 ^ n"
  by (simp add: pow2_powr powr_realpow)

lemma pow2_mono: "a \<le> b \<Longrightarrow> pow2 a \<le> pow2 b"
  by (simp add: pow2_powr)

lemma pow2_diff: "pow2 (a - b) = pow2 a / pow2 b"
  by (simp add: pow2_powr powr_diff)

lemma pow2_of_int: "0 \<le> e \<Longrightarrow> pow2 e = of_int (2 ^ nat e)"
  using pow2_nat [of "nat e"] by simp

lemma round_even_of_int [simp]: "round_even (of_int n) = n"
  by (simp add: round_even_def)

lemma round_even_cases:
  "round_even y = \<lfloor>y\<rfloor> \<and> y - of_int \<lfloor>y\<rfloor> \<le> 1 / 2
   \<or> round_even y = \<lfloor>y\<rfloor> + 1 \<and> 1 / 2 \<le> y - of_int \<lfloor>y\<rfloor>"
  by (auto simp: round_even_def Let_def)

lemma round_even_mono:
  assumes "x \<le> y"
  shows "round_even x \<le> round_even y"
proof (cases "\<lfloor>x\<rfloor> < \<lfloor>y\<rfloor>")
  case True
  from round_even_cases [of x] have "round_even x \<le> \<lfloor>x\<rfloor> + 1" by auto
  moreover from round_even_cases [of y] have "\<lfloor>y\<rfloor> \<le> round_even y" by auto
  ultimately show ?thesis using True by linarith
next
  case False
  with assms have eq: "\<lfloor>x\<rfloor> = \<lfloor>y\<rfloor>" using floor_mono [OF assms] by linarith
  with assms show ?thesis
    by (auto simp: round_even_def Let_def)
qed

lemma round_even_minus: "round_even (- y) = - round_even y"
proof (cases "y = of_int \<lfloor>y\<rfloor>")
  case True
  have "round_even (- of_int \<lfloor>y\<rfloor>) = - round_even (of_int \<lfloor>y\<rfloor>)"
    using round_even_of_int [of "- \<lfloor>y\<rfloor>"] by simp
  with True show ?thesis by simp
next
  case False
  have "\<lceil>y\<rceil> = \<lfloor>y\<rfloor> + 1" using False by (simp add: ceiling_altdef)
  then have f: "\<lfloor>- y\<rfloor> = - \<lfloor>y\<rfloor> - 1" by (simp add: ceiling_def)
  have b: "of_int \<lfloor>y\<rfloor> < y" "y < of_int \<lfloor>y\<rfloor> + 1" using False by linarith+
  show ?thesis
  proof (cases "y - of_int \<lfloor>y\<rfloor> < 1 / 2")
    case True
    with b f show ?thesis by (simp add: round_even_def Let_def)
  next
    case False
    note nl = this
    show ?thesis
    proof (cases "1 / 2 < y - of_int \<lfloor>y\<rfloor>")
      case True
      with b f show ?thesis by (simp add: round_even_def Let_def)
    next
      case False
      with nl have h: "y - of_int \<lfloor>y\<rfloor> = 1 / 2" by simp
      then have "- y - of_int (- \<lfloor>y\<rfloor> - 1) = 1 / 2" by simp
      with h f show ?thesis by (simp add: round_even_def Let_def)
    qed
  qed
qed

lemma fl_0 [simp]: "fl 0 = 0"
  by (simp add: fl_def)

lemma fl_exponent_minus [simp]: "fl_exponent (- x) = fl_exponent x"
  by (simp add: fl_exponent_def binade_def)

lemma fl_minus: "fl (- x) = - fl x"
  by (simp add: fl_def round_even_minus)

lemma round_even_nonneg: "0 \<le> y \<Longrightarrow> 0 \<le> round_even y"
  using round_even_mono [of 0 y] round_even_of_int [of 0] by simp

lemma pow2_nonneg [simp]: "0 \<le> pow2 e" and pow2_not_neg [simp]: "\<not> pow2 e < 0"
  and pow2_neq_0 [simp]: "pow2 e \<noteq> 0"
  by (simp_all add: pow2_powr)

lemma fl_nonneg:
  assumes "0 \<le> x"
  shows "0 \<le> fl x"
proof -
  from assms have "0 \<le> x / pow2 (fl_exponent x)" by simp
  then have "0 \<le> round_even (x / pow2 (fl_exponent x))" by (rule round_even_nonneg)
  then show ?thesis by (simp add: fl_def)
qed

lemma fl_nonpos: "x \<le> 0 \<Longrightarrow> fl x \<le> 0"
  using fl_nonneg [of "- x"] by (simp add: fl_minus)

text \<open>The floor of the binary logarithm, from bounds by powers of two.\<close>

lemma floor_log2_bounds:
  assumes "0 < x"
  shows "pow2 \<lfloor>log 2 x\<rfloor> \<le> x" and "x < pow2 (\<lfloor>log 2 x\<rfloor> + 1)"
  using floor_log_eq_powr_iff [of x 2 "\<lfloor>log 2 x\<rfloor>"] assms by (simp_all add: pow2_powr)

lemma floor_log2_eq:
  assumes "pow2 k \<le> x" and "x < pow2 (k + 1)"
  shows "\<lfloor>log 2 x\<rfloor> = k"
proof -
  from assms(1) have "0 < x" using pow2_pos [of k] by linarith
  with assms show ?thesis
    using floor_log_eq_powr_iff [of x 2 k] by (simp add: pow2_powr)
qed

lemma fl_exponent_mono:
  assumes "0 < x" and "x \<le> y"
  shows "fl_exponent x \<le> fl_exponent y"
proof -
  from assms have "log 2 x \<le> log 2 y" by simp
  then have "\<lfloor>log 2 x\<rfloor> \<le> \<lfloor>log 2 y\<rfloor>" by (rule floor_mono)
  moreover from assms have "0 < y" by simp
  ultimately show ?thesis using assms(1) by (simp add: fl_exponent_log)
qed

lemma fl_pos_eq:
  "0 < x \<Longrightarrow> fl x = of_int (round_even (x / pow2 (fl_exponent x))) * pow2 (fl_exponent x)"
  by (simp add: fl_def)

lemma fl_mono_pos:
  assumes "0 < x" and "x \<le> y"
  shows "fl x \<le> fl y"
proof -
  from assms have y: "0 < y" by simp
  let ?ex = "fl_exponent x" and ?ey = "fl_exponent y"
  from fl_exponent_mono [OF assms] have le: "?ex \<le> ?ey" .
  show ?thesis
  proof (cases "?ex = ?ey")
    case True
    from assms have "x / pow2 ?ex \<le> y / pow2 ?ex" by (simp add: divide_right_mono)
    then have "round_even (x / pow2 ?ex) \<le> round_even (y / pow2 ?ex)" by (rule round_even_mono)
    then have "of_int (round_even (x / pow2 ?ex)) * pow2 ?ex
        \<le> of_int (round_even (y / pow2 ?ex)) * pow2 ?ex"
      by (simp add: mult_right_mono)
    with True assms(1) y show ?thesis by (simp add: fl_pos_eq)
  next
    case False
    with le have lt: "?ex < ?ey" by simp
    let ?ky = "\<lfloor>log 2 y\<rfloor>" and ?kx = "\<lfloor>log 2 x\<rfloor>"
    from assms(1) y have ex_log: "?ex = max (?kx - 52) (- 1074)"
      and ey_log: "?ey = max (?ky - 52) (- 1074)"
      by (simp_all add: fl_exponent_log)
    from lt have ey: "?ey = ?ky - 52" and kx: "?kx - 52 < ?ky - 52"
      by (auto simp: ex_log ey_log max_def
          split: if_splits)
    define ry where "ry = round_even (y / pow2 ?ey)"
    define rx where "rx = round_even (x / pow2 ?ex)"
    have fy: "fl y = of_int ry * pow2 ?ey" and fx: "fl x = of_int rx * pow2 ?ex"
      using y assms(1) by (simp_all add: fl_pos_eq ry_def rx_def)
    have "pow2 ?ky \<le> y" using floor_log2_bounds(1) [OF y] .
    then have "pow2 ?ky / pow2 ?ey \<le> y / pow2 ?ey" by (simp add: divide_right_mono)
    moreover have split_y: "pow2 ?ky = of_int (2 ^ 52) * pow2 ?ey"
      using pow2_add [of 52 ?ey] pow2_of_int [of 52] ey by simp
    ultimately have "of_int (2 ^ 52) \<le> y / pow2 ?ey" by simp
    then have "round_even (of_int (2 ^ 52)) \<le> ry"
      unfolding ry_def by (rule round_even_mono)
    then have a: "(2 ^ 52 :: int) \<le> ry" by (simp only: round_even_of_int)
    have "pow2 ?ky = of_int (2 ^ 52) * pow2 ?ey" by (rule split_y)
    also have "\<dots> \<le> of_int ry * pow2 ?ey"
      using a by (intro mult_right_mono) (simp_all only: of_int_le_iff pow2_nonneg)
    finally have lower: "pow2 ?ky \<le> fl y" by (simp only: fy)
    from kx have "?kx + 1 \<le> ?ky" by simp
    then have "pow2 (?kx + 1) \<le> pow2 ?ky" by (rule pow2_mono)
    with floor_log2_bounds(2) [OF assms(1)] have "x \<le> pow2 ?ky" by simp
    then have "x / pow2 ?ex \<le> pow2 ?ky / pow2 ?ex" by (simp add: divide_right_mono)
    moreover from lt ey have nn: "0 \<le> ?ky - ?ex" by simp
    have split_x: "pow2 ?ky = of_int (2 ^ nat (?ky - ?ex)) * pow2 ?ex"
      using pow2_add [of "?ky - ?ex" ?ex] pow2_of_int [OF nn] by simp
    ultimately have "x / pow2 ?ex \<le> of_int (2 ^ nat (?ky - ?ex))" by simp
    then have "rx \<le> round_even (of_int (2 ^ nat (?ky - ?ex)))"
      unfolding rx_def by (rule round_even_mono)
    then have b: "rx \<le> 2 ^ nat (?ky - ?ex)" by (simp only: round_even_of_int)
    have "fl x = of_int rx * pow2 ?ex" by (rule fx)
    also have "\<dots> \<le> of_int (2 ^ nat (?ky - ?ex)) * pow2 ?ex"
      using b by (intro mult_right_mono) (simp_all only: of_int_le_iff pow2_nonneg)
    also have "\<dots> = pow2 ?ky" by (simp only: split_x)
    finally have "fl x \<le> pow2 ?ky" .
    with lower show ?thesis by simp
  qed
qed

lemma fl_mono:
  assumes "x \<le> y"
  shows "fl x \<le> fl y"
proof (cases "0 < x")
  case True
  from True assms show ?thesis by (rule fl_mono_pos)
next
  case False
  note x = this
  show ?thesis
  proof (cases "0 \<le> y")
    case True
    from x have "fl x \<le> 0" by (simp add: fl_nonpos)
    with fl_nonneg [OF True] show ?thesis by simp
  next
    case False
    with assms have "0 < - y" "- y \<le> - x" by simp_all
    from fl_mono_pos [OF this] show ?thesis by (simp add: fl_minus)
  qed
qed

lemma pow2_strict_mono: "a < b \<Longrightarrow> pow2 a < pow2 b"
  by (simp add: pow2_powr)

lemma pow2_not_le_0 [simp]: "\<not> pow2 e \<le> 0"
  by (simp add: pow2_powr not_le)

lemma pow2_neg_nat: "pow2 (- int n) = 1 / 2 ^ n"
  by (simp add: pow2_powr powr_minus powr_realpow divide_inverse)

lemma fl_eval:
  assumes "pow2 (e + 52) \<le> \<bar>x\<bar>" and "\<bar>x\<bar> < pow2 (e + 53)" and "- 1074 \<le> e"
  shows "fl x = of_int (round_even (x / pow2 e)) * pow2 e"
proof -
  from assms(1) have nz: "x \<noteq> 0" by auto
  from assms(1,2) have "\<lfloor>log 2 \<bar>x\<bar>\<rfloor> = e + 52"
    by (intro floor_log2_eq) (simp_all add: add.assoc)
  with assms(3) have "fl_exponent x = e" by (simp add: fl_exponent_log [OF nz])
  with nz show ?thesis by (simp add: fl_def)
qed

lemma fl_exact:
  assumes "x = of_int m * pow2 e" and "\<bar>m\<bar> < 2 ^ 53" and "- 1074 \<le> e"
  shows "fl x = x"
proof (cases "m = 0")
  case True
  with assms(1) show ?thesis by simp
next
  case False
  with assms(1) have nz: "x \<noteq> 0" by simp
  then have pos: "0 < \<bar>x\<bar>" by simp
  let ?E = "fl_exponent x"
  have "\<bar>x\<bar> = of_int \<bar>m\<bar> * pow2 e" by (simp add: assms(1) abs_mult)
  also have "\<dots> < of_int (2 ^ 53) * pow2 e"
    using assms(2) by (intro mult_strict_right_mono) simp_all
  also have "\<dots> = pow2 (53 + e)" using pow2_add [of 53 e] pow2_of_int [of 53] by simp
  finally have "\<bar>x\<bar> < pow2 (53 + e)" .
  with floor_log2_bounds(1) [OF pos] have "pow2 \<lfloor>log 2 \<bar>x\<bar>\<rfloor> < pow2 (53 + e)" by simp
  then have "\<lfloor>log 2 \<bar>x\<bar>\<rfloor> < 53 + e"
    using pow2_mono [of "53 + e" "\<lfloor>log 2 \<bar>x\<bar>\<rfloor>"] by (cases "\<lfloor>log 2 \<bar>x\<bar>\<rfloor> < 53 + e") simp_all
  with assms(3) have le: "?E \<le> e" by (simp add: fl_exponent_log [OF nz])
  then have nn: "0 \<le> e - ?E" by simp
  have "pow2 e = of_int (2 ^ nat (e - ?E)) * pow2 ?E"
    using pow2_add [of "e - ?E" ?E] pow2_of_int [OF nn] by simp
  then have x: "x = of_int (m * 2 ^ nat (e - ?E)) * pow2 ?E" by (simp add: assms(1))
  define p where "p = pow2 ?E"
  define k where "k = m * 2 ^ nat (e - ?E)"
  have "0 < p" by (simp add: p_def)
  from x have xk: "x = of_int k * p" by (simp only: p_def k_def)
  with \<open>0 < p\<close> have "x / p = of_int k" by simp
  then have "round_even (x / p) = k" by (simp only: round_even_of_int)
  then have "fl x = of_int k * p" using nz by (simp add: fl_def p_def)
  with xk show ?thesis by simp
qed

lemma fl_of_int: "\<bar>n\<bar> < 2 ^ 53 \<Longrightarrow> fl (of_int n) = of_int n"
  using fl_exact [of "of_int n" n 0] by simp


lemma fl_neg_numeral: "(numeral k :: int) < 2 ^ 53 \<Longrightarrow> fl (- numeral k) = - numeral k"
  using fl_of_int [of "- numeral k"] by simp

lemma fl_1 [simp]: "fl 1 = 1"
  using fl_of_int [of 1] by simp

lemma fl_neg_1 [simp]: "fl (- 1) = - 1"
  using fl_of_int [of "- 1"] by simp

lemma fl_pos:
  assumes "1 / 2 ^ 100 \<le> x"
  shows "0 < fl x"
proof -
  have "fl (1 / 2 ^ 100) = 1 / 2 ^ 100"
    using fl_exact [of "1 / 2 ^ 100" 1 "- 100"] pow2_neg_nat [of 100] by simp
  with fl_mono [OF assms] have "1 / 2 ^ 100 \<le> fl x" by (simp only:)
  moreover have "0 < (1 :: real) / 2 ^ 100" by simp
  ultimately show ?thesis by (rule less_le_trans [rotated])
qed

lemma fl_fifth: "fl (1 / 5) = 3602879701896397 / 18014398509481984"
proof -
  have p55: "pow2 (- 55) = 1 / 36028797018963968" using pow2_neg_nat [of 55] by simp
  have "fl (1 / 5) = of_int (round_even ((1 / 5) / pow2 (- 55))) * pow2 (- 55)"
    using pow2_neg_nat [of 3] pow2_neg_nat [of 2]
    by (intro fl_eval) simp_all
  also have "(1 / 5) / pow2 (- 55) = 36028797018963968 / (5 :: real)"
    by (simp add: p55)
  also have "round_even (36028797018963968 / 5) = 7205759403792794"
    by (simp add: round_even_def Let_def)
  finally show ?thesis by (simp add: p55)
qed

text \<open>A rounded number is a double, so rounding it again changes nothing.\<close>

lemma round_even_bound:
  assumes "0 \<le> y" and "y \<le> of_int n"
  shows "round_even y \<le> n"
  using round_even_mono [OF assms(2)] by simp

lemma fl_fl: "fl (fl x) = fl x"
proof (cases "x = 0")
  case True
  then show ?thesis by simp
next
  case False
  then have pos: "0 < \<bar>x\<bar>" by simp
  let ?E = "fl_exponent x"
  let ?R = "round_even (x / pow2 ?E)"
  from False have flx: "fl x = of_int ?R * pow2 ?E" by (simp add: fl_def)
  have E: "- 1074 \<le> ?E" and E': "\<lfloor>log 2 \<bar>x\<bar>\<rfloor> - 52 \<le> ?E"
    by (simp_all add: fl_exponent_log [OF False])
  from E' have "pow2 (\<lfloor>log 2 \<bar>x\<bar>\<rfloor> + 1) \<le> pow2 (?E + 53)" by (intro pow2_mono) simp
  with floor_log2_bounds(2) [OF pos] have "\<bar>x\<bar> < pow2 (?E + 53)" by simp
  also have "\<dots> = of_int (2 ^ 53) * pow2 ?E"
    using pow2_add [of 53 ?E] pow2_of_int [of 53] by (simp add: add.commute)
  finally have "\<bar>x\<bar> / pow2 ?E < of_int (2 ^ 53)" by (simp add: pos_divide_less_eq)
  moreover define y where "y = x / pow2 ?E"
  ultimately have "\<bar>y\<bar> < of_int (2 ^ 53)" by (simp add: abs_divide)
  then have b: "y \<le> of_int (2 ^ 53)" "- y \<le> of_int (2 ^ 53)" by simp_all
  have "\<bar>round_even y\<bar> \<le> 2 ^ 53"
  proof (cases "0 \<le> y")
    case True
    from True b(1) have "round_even y \<le> 2 ^ 53" by (rule round_even_bound)
    moreover from True have "0 \<le> round_even y" by (rule round_even_nonneg)
    ultimately show ?thesis by simp
  next
    case False
    then have nn: "0 \<le> - y" by simp
    from nn b(2) have "round_even (- y) \<le> 2 ^ 53" by (rule round_even_bound)
    moreover from nn have "0 \<le> round_even (- y)" by (rule round_even_nonneg)
    ultimately show ?thesis by (simp add: round_even_minus)
  qed
  then have "\<bar>?R\<bar> \<le> 2 ^ 53" by (simp only: y_def)
  then consider "\<bar>?R\<bar> < 2 ^ 53" | "?R = 2 ^ 53" | "?R = - (2 ^ 53)" by linarith
  then have "fl (of_int ?R * pow2 ?E) = of_int ?R * pow2 ?E"
  proof cases
    case 1
    then show ?thesis using E by (intro fl_exact [of _ ?R ?E]) simp_all
  next
    case 2
    have "of_int ?R * pow2 ?E = of_int (2 ^ 52) * pow2 (?E + 1)"
      using pow2_add [of ?E 1] pow2_of_int [of 1] by (simp add: 2)
    then show ?thesis using E by (intro fl_exact [of _ "2 ^ 52" "?E + 1"]) simp_all
  next
    case 3
    have "of_int ?R * pow2 ?E = of_int (- (2 ^ 52)) * pow2 (?E + 1)"
      using pow2_add [of ?E 1] pow2_of_int [of 1] by (simp add: 3)
    then show ?thesis using E by (intro fl_exact [of _ "- (2 ^ 52)" "?E + 1"]) simp_all
  qed
  with flx show ?thesis by simp
qed

section \<open>Weighted selection of a spawn area\<close>













text \<open>
  Outside these configurations the loop can end without returning, and the statement
  after it returns the first area, not the last: the areas \<open>north\<close> and \<open>south\<close>
  configured with the weight \<open>-1\<close> each, and the draw \<open>1/4\<close>.
\<close>

lemma selectWeightedSpawnArea_negative_weights:
  "configureSpawnAreas [circle_data ''north'' 0 (- 50) (- 1), circle_data ''south'' 0 50 (- 1)]
       new_EnemyManager = Inr (two_areas (- 1) (- 2))
   \<and> area_loop (fl ((1 / 4) * totalSpawnWeight (two_areas (- 1) (- 2)))) 0
        (spawnAreas (two_areas (- 1) (- 2))) = None
   \<and> selectWeightedSpawnArea (1 / 4) (two_areas (- 1) (- 2))
       = Some (circle_area ''north'' 0 (- 50) (- 1))
   \<and> last (spawnAreas (two_areas (- 1) (- 2))) = circle_area ''south'' 0 50 (- 1)"
proof -
  have r: "fl (- (1 / 2)) = - (1 / 2)"
    using fl_exact [of "- (1 / 2)" "- 1" "- 1"] pow2_neg_nat [of 1] by simp
  show ?thesis
    by (simp add: configureSpawnAreas_def make_area_def shape_of_def circle_data_def
        js_or_str_def js_or_def center_of_def new_EnemyManager_def r
        two_areas_def selectWeightedSpawnArea_def circle_area_def Let_def fl_neg_numeral)
qed

section \<open>Archetypes: configuration and the weighted draw\<close>

lemma map_set_keys: "fst ` set (map_set k v m) = insert k (fst ` set m)"
proof (induction m)
  case Nil
  show ?case by simp
next
  case (Cons e m)
  obtain k' v' where e: "e = (k', v')" by (cases e)
  show ?case
  proof (cases "k' = k")
    case True
    with e show ?thesis by auto
  next
    case False
    with e Cons.IH show ?thesis by auto
  qed
qed

lemma map_set_entries: "set (map_set k v m) \<subseteq> insert (k, v) (set m)"
  by (induction m) (auto split: if_splits)

lemma register_types_keys:
  "fst ` set (register_types tds m) = fst ` set m \<union> td_id ` set tds"
  by (induction tds arbitrary: m) (auto simp: map_set_keys)

lemma register_types_entries:
  "e \<in> set (register_types tds m) \<Longrightarrow>
     e \<in> set m \<or> (\<exists>td\<in>set tds. e = (td_id td, register_type td))"
proof (induction tds arbitrary: m)
  case Nil
  then show ?case by simp
next
  case (Cons td tds)
  from Cons.IH [OF Cons.prems [simplified]]
  show ?case using map_set_entries [of "td_id td" "register_type td" m] by auto
qed

lemma register_type_weight: "type_weight (register_type td) \<noteq> 0"
  by (simp add: register_type_def js_or_def split: option.splits)

lemma register_type_zero_weight:
  "td_weight td = Some 0 \<Longrightarrow> type_weight (register_type td) = 1"
  by (simp add: register_type_def js_or_def)

lemma type_loop_member: "type_loop r acc tys = Some ty \<Longrightarrow> ty \<in> set tys"
  by (induction tys arbitrary: acc) (auto simp: Let_def split: if_splits)

lemma getRandomEnemyType_member:
  assumes "enemyTypes s \<noteq> []"
  shows "\<exists>ty\<in>set (map_values (enemyTypes s)). getRandomEnemyType u s = Some ty"
proof (cases "type_loop
    (fl (u * foldl (\<lambda>total ty. fl (total + type_weight ty)) 0 (map_values (enemyTypes s)))) 0
    (map_values (enemyTypes s))")
  case None
  with assms show ?thesis
    by (cases "enemyTypes s") (simp_all add: getRandomEnemyType_def map_values_def Let_def)
next
  case (Some ty)
  with type_loop_member [OF Some] show ?thesis
    by (simp add: getRandomEnemyType_def Let_def)
qed

lemma configure_enemyTypes:
  "cd_enemyTypes c = Some tds \<Longrightarrow> tds \<noteq> [] \<Longrightarrow>
     enemyTypes (configure c s) = register_types tds []"
  by (simp add: configure_def Let_def)

lemma map_of_map_set: "map_of (map_set k v m) = (map_of m)(k \<mapsto> v)"
proof (induction m)
  case Nil
  show ?case by simp
next
  case (Cons e m)
  obtain k' v' where e: "e = (k', v')" by (cases e)
  show ?case
  proof (cases "k' = k")
    case True
    with e show ?thesis by (simp add: fun_eq_iff)
  next
    case False
    with e Cons.IH show ?thesis by (simp add: fun_eq_iff)
  qed
qed

lemma map_set_distinct: "distinct (map fst m) \<Longrightarrow> distinct (map fst (map_set k v m))"
proof (induction m)
  case Nil
  show ?case by simp
next
  case (Cons e m)
  obtain k' v' where e: "e = (k', v')" by (cases e)
  show ?case
  proof (cases "k' = k")
    case True
    with e Cons.prems show ?thesis by simp
  next
    case False
    from Cons have "distinct (map fst (map_set k v m))" by simp
    moreover from e Cons.prems False have "k' \<notin> fst ` set (map_set k v m)"
      by (simp add: map_set_keys)
    ultimately show ?thesis using e False by simp
  qed
qed

lemma register_types_distinct:
  "distinct (map fst m) \<Longrightarrow> distinct (map fst (register_types tds m))"
  by (induction tds arbitrary: m) (simp_all add: map_set_distinct)

lemma register_types_append:
  "register_types (pre @ post) m = register_types post (register_types pre m)"
  by (induction pre arbitrary: m) simp_all

lemma register_types_other:
  "k \<notin> td_id ` set tds \<Longrightarrow> map_of (register_types tds m) k = map_of m k"
  by (induction tds arbitrary: m) (simp_all add: map_of_map_set)

lemma register_types_last:
  assumes "td_id td \<notin> td_id ` set post"
  shows "map_of (register_types (pre @ td # post) m) (td_id td) = Some (register_type td)"
  using register_types_other [OF assms]
  by (simp add: register_types_append map_of_map_set)

lemma register_types_first:
  "k \<notin> td_id ` set tds \<Longrightarrow>
     register_types tds ((k, v) # m) = (k, v) # register_types tds m"
  by (induction tds arbitrary: m) auto

lemma register_type_unset_weight:
  "td_weight td = None \<or> td_weight td = Some 0 \<Longrightarrow> type_weight (register_type td) = 1"
  by (auto simp: register_type_def js_or_def)

lemma getRandomEnemyType_first:
  assumes "enemyTypes s = (k, ty) # rest" and "0 \<le> type_weight ty"
  shows "getRandomEnemyType 0 s = Some ty"
  using assms by (simp add: getRandomEnemyType_def map_values_def Let_def fl_nonneg)

text \<open>
  Claim C3, as the code has it.  For every non-empty list of archetypes passed to
  \<open>configure\<close>, none is rejected.  The registered ids are exactly the ids of the list,
  each once.  An id is stored with the data of the last entry of the list that has this
  id, and a weight that is 0 or absent is stored as 1 (\<open>typeData.weight || 1.0\<close>): the
  last entry of its id, when its weight is 0 or absent, is stored with weight 1.  No stored
  archetype has weight 0, and for every draw \<open>getRandomEnemyType\<close> returns a stored
  archetype, whose stored weight is not 0.  An archetype configured with weight 0 can be
  returned: when the id of the first entry of the list is not repeated and its stored weight
  is not negative, as it is when its weight is 0 or absent, the draw 0 returns this entry's
  archetype.
\<close>

theorem configure_zero_weight:
  assumes "cd_enemyTypes c = Some tds" and "tds \<noteq> []"
  shows "fst ` set (enemyTypes (configure c s)) = td_id ` set tds
    \<and> distinct (map fst (enemyTypes (configure c s)))
    \<and> (\<forall>pre td post. tds = pre @ td # post \<and> td_id td \<notin> td_id ` set post \<longrightarrow>
          map_of (enemyTypes (configure c s)) (td_id td) = Some (register_type td)
          \<and> type_weight (register_type td)
              = (case td_weight td of None \<Rightarrow> 1 | Some w \<Rightarrow> if w = 0 then 1 else w)
          \<and> (td_weight td = None \<or> td_weight td = Some 0 \<longrightarrow>
                (\<exists>ty. map_of (enemyTypes (configure c s)) (td_id td) = Some ty
                      \<and> type_weight ty = 1)))
    \<and> (\<forall>ty\<in>set (map_values (enemyTypes (configure c s))).
          (\<exists>td\<in>set tds. ty = register_type td) \<and> type_weight ty \<noteq> 0)
    \<and> (\<exists>ty\<in>set (map_values (enemyTypes (configure c s))).
          getRandomEnemyType u (configure c s) = Some ty \<and> type_weight ty \<noteq> 0)
    \<and> (td_id (hd tds) \<notin> td_id ` set (tl tds) \<and> 0 \<le> type_weight (register_type (hd tds)) \<longrightarrow>
          getRandomEnemyType 0 (configure c s) = Some (register_type (hd tds)))
    \<and> (td_id (hd tds) \<notin> td_id ` set (tl tds)
          \<and> (td_weight (hd tds) = None \<or> td_weight (hd tds) = Some 0) \<longrightarrow>
          getRandomEnemyType 0 (configure c s) = Some (register_type (hd tds))
          \<and> type_weight (register_type (hd tds)) = 1)"
proof -
  have types: "enemyTypes (configure c s) = register_types tds []"
    using assms by (rule configure_enemyTypes)
  have keys: "fst ` set (enemyTypes (configure c s)) = td_id ` set tds"
    by (simp add: types register_types_keys)
  have dist: "distinct (map fst (enemyTypes (configure c s)))"
    by (simp add: types register_types_distinct)
  have last_entry: "map_of (enemyTypes (configure c s)) (td_id td) = Some (register_type td)
      \<and> type_weight (register_type td)
          = (case td_weight td of None \<Rightarrow> 1 | Some w \<Rightarrow> if w = 0 then 1 else w)
      \<and> (td_weight td = None \<or> td_weight td = Some 0 \<longrightarrow>
            (\<exists>ty. map_of (enemyTypes (configure c s)) (td_id td) = Some ty
                  \<and> type_weight ty = 1))"
    if "tds = pre @ td # post \<and> td_id td \<notin> td_id ` set post" for pre td post
  proof -
    from that have "map_of (enemyTypes (configure c s)) (td_id td) = Some (register_type td)"
      by (simp add: types register_types_last)
    moreover have "type_weight (register_type td)
          = (case td_weight td of None \<Rightarrow> 1 | Some w \<Rightarrow> if w = 0 then 1 else w)"
      by (simp add: register_type_def js_or_def)
    ultimately show ?thesis using register_type_unset_weight [of td] by simp
  qed
  have stored: "\<exists>td\<in>set tds. ty = register_type td"
    if "ty \<in> set (map_values (enemyTypes (configure c s)))" for ty
  proof -
    from that obtain k where "(k, ty) \<in> set (register_types tds [])"
      by (auto simp: types map_values_def)
    from register_types_entries [OF this] show ?thesis by auto
  qed
  then have weights: "\<forall>ty\<in>set (map_values (enemyTypes (configure c s))).
      (\<exists>td\<in>set tds. ty = register_type td) \<and> type_weight ty \<noteq> 0"
    using register_type_weight by blast
  from assms(2) keys have "enemyTypes (configure c s) \<noteq> []" by auto
  from getRandomEnemyType_member [OF this, of u] weights
  have draw: "\<exists>ty\<in>set (map_values (enemyTypes (configure c s))).
      getRandomEnemyType u (configure c s) = Some ty \<and> type_weight ty \<noteq> 0"
    by blast
  have first: "getRandomEnemyType 0 (configure c s) = Some (register_type (hd tds))"
    if "td_id (hd tds) \<notin> td_id ` set (tl tds)" "0 \<le> type_weight (register_type (hd tds))"
  proof -
    from assms(2) obtain td rest where tds: "tds = td # rest" by (cases tds) auto
    with that(1) have "enemyTypes (configure c s)
        = (td_id td, register_type td) # register_types rest []"
      by (simp add: types register_types_first)
    from getRandomEnemyType_first [OF this] that(2) tds show ?thesis by simp
  qed
  have first_unset: "getRandomEnemyType 0 (configure c s) = Some (register_type (hd tds))
      \<and> type_weight (register_type (hd tds)) = 1"
    if "td_id (hd tds) \<notin> td_id ` set (tl tds)"
      "td_weight (hd tds) = None \<or> td_weight (hd tds) = Some 0"
  proof -
    from that(2) have "type_weight (register_type (hd tds)) = 1"
      by (rule register_type_unset_weight)
    with first [OF that(1)] show ?thesis by simp
  qed
  from last_entry have entries:
    "\<forall>pre td post. tds = pre @ td # post \<and> td_id td \<notin> td_id ` set post \<longrightarrow>
          map_of (enemyTypes (configure c s)) (td_id td) = Some (register_type td)
          \<and> type_weight (register_type td)
              = (case td_weight td of None \<Rightarrow> 1 | Some w \<Rightarrow> if w = 0 then 1 else w)
          \<and> (td_weight td = None \<or> td_weight td = Some 0 \<longrightarrow>
                (\<exists>ty. map_of (enemyTypes (configure c s)) (td_id td) = Some ty
                      \<and> type_weight ty = 1))"
    by (intro allI impI)
  from first have first':
    "td_id (hd tds) \<notin> td_id ` set (tl tds) \<and> 0 \<le> type_weight (register_type (hd tds)) \<longrightarrow>
          getRandomEnemyType 0 (configure c s) = Some (register_type (hd tds))"
    by (intro impI) (elim conjE)
  from first_unset have first_unset':
    "td_id (hd tds) \<notin> td_id ` set (tl tds)
          \<and> (td_weight (hd tds) = None \<or> td_weight (hd tds) = Some 0) \<longrightarrow>
          getRandomEnemyType 0 (configure c s) = Some (register_type (hd tds))
          \<and> type_weight (register_type (hd tds)) = 1"
    by (intro impI) (elim conjE)
  from keys dist entries weights draw first' first_unset' show ?thesis
    by (intro conjI)
qed

text \<open>
  The theorem at the list that holds only the archetype \<open>ghost\<close> of weight 0: it is
  stored with weight 1, the draw 0 returns it, and the draw \<open>1/2\<close> returns an archetype
  whose stored weight is not 0.
\<close>

theorem configure_zero_weight_witness:
  "fst ` set (enemyTypes (configure (only_types [zero_weight_type]) new_EnemyManager))
     = {''ghost''}
   \<and> map_of (enemyTypes (configure (only_types [zero_weight_type]) new_EnemyManager)) ''ghost''
       = Some (register_type zero_weight_type)
   \<and> type_weight (register_type zero_weight_type) = 1
   \<and> getRandomEnemyType 0 (configure (only_types [zero_weight_type]) new_EnemyManager)
       = Some (register_type zero_weight_type)
   \<and> (\<exists>ty. getRandomEnemyType (1 / 2)
              (configure (only_types [zero_weight_type]) new_EnemyManager) = Some ty
         \<and> type_weight ty \<noteq> 0)"
proof -
  have c: "cd_enemyTypes (only_types [zero_weight_type]) = Some [zero_weight_type]"
    by (simp add: only_types_def)
  have ne: "[zero_weight_type] \<noteq> []" by simp
  note t = configure_zero_weight [OF c ne, of new_EnemyManager "1 / 2"]
  from t [THEN conjunct1] have keys:
    "fst ` set (enemyTypes (configure (only_types [zero_weight_type]) new_EnemyManager))
       = {''ghost''}"
    by (simp add: zero_weight_type_def)
  note entries = t [THEN conjunct2, THEN conjunct2, THEN conjunct1, rule_format,
    of "[]" zero_weight_type "[]"]
  then have stored:
    "map_of (enemyTypes (configure (only_types [zero_weight_type]) new_EnemyManager)) ''ghost''
       = Some (register_type zero_weight_type)"
    by (simp add: zero_weight_type_def)
  note draw = t [THEN conjunct2, THEN conjunct2, THEN conjunct2, THEN conjunct2,
    THEN conjunct1]
  then have draw': "\<exists>ty. getRandomEnemyType (1 / 2)
              (configure (only_types [zero_weight_type]) new_EnemyManager) = Some ty
         \<and> type_weight ty \<noteq> 0"
    by blast
  note unset = t [THEN conjunct2, THEN conjunct2, THEN conjunct2, THEN conjunct2,
    THEN conjunct2, THEN conjunct2]
  then have first:
    "getRandomEnemyType 0 (configure (only_types [zero_weight_type]) new_EnemyManager)
       = Some (register_type zero_weight_type)
     \<and> type_weight (register_type zero_weight_type) = 1"
    by (simp add: zero_weight_type_def)
  from keys stored first draw' show ?thesis by simp
qed

text \<open>
  Claim C3 as stated fails: the archetype \<open>ghost\<close>, configured with weight 0, is not
  rejected by \<open>configure\<close> but stored with weight 1, and the draw \<open>1/2\<close> returns it.
\<close>

theorem configure_zero_weight_counterexample:
  "td_weight zero_weight_type = Some 0
   \<and> enemyTypes (configure (only_types [zero_weight_type]) (init_manager new_EnemyManager))
       = [(''ghost'', \<lparr> type_id = ''ghost'', type_weight = 1, type_health = 70,
            type_speed = 5, type_damage = 15, type_detectionRange = 20 \<rparr>)]
   \<and> getRandomEnemyType (1 / 2)
        (configure (only_types [zero_weight_type]) (init_manager new_EnemyManager))
       = Some \<lparr> type_id = ''ghost'', type_weight = 1, type_health = 70, type_speed = 5,
            type_damage = 15, type_detectionRange = 20 \<rparr>"
  by (simp add: zero_weight_type_def only_types_def configure_def register_type_def js_or_def
      getRandomEnemyType_def map_values_def Let_def)

section \<open>Sampling a position in a circle\<close>






section \<open>Preload and staged activation\<close>

lemma activate_fields [simp]:
  "enemies (activate a s) = enemies s @ [a]"
  "registry (activate a s) = registry s @ [a]"
  "preloadedZombies (activate a s) = preloadedZombies s"
  "config (activate a s) = config s"
  "intervals (activate a s) = intervals s"
  "length (store (activate a s)) = length (store s)"
  "preloadComplete (activate a s) = preloadComplete s"
  "mgr_enabled (activate a s) = mgr_enabled s"
  by (simp_all add: activate_def addEntity_def)

lemma activate_all_fields [simp]:
  "enemies (foldl (\<lambda>s' a. activate a s') s as) = enemies s @ as"
  "registry (foldl (\<lambda>s' a. activate a s') s as) = registry s @ as"
  "preloadedZombies (foldl (\<lambda>s' a. activate a s') s as) = preloadedZombies s"
  "config (foldl (\<lambda>s' a. activate a s') s as) = config s"
  "intervals (foldl (\<lambda>s' a. activate a s') s as) = intervals s"
  "length (store (foldl (\<lambda>s' a. activate a s') s as)) = length (store s)"
  by (induction as arbitrary: s) simp_all

lemma activatePreloadedZombies_fields:
  "enemies (activatePreloadedZombies s)
     = enemies s @ take (initialActiveCount (config s)) (preloadedZombies s)"
  "registry (activatePreloadedZombies s)
     = registry s @ take (initialActiveCount (config s)) (preloadedZombies s)"
  "preloadedZombies (activatePreloadedZombies s) = preloadedZombies s"
  "config (activatePreloadedZombies s) = config s"
  "intervals (activatePreloadedZombies s)
     = intervals s @ [\<lparr> iv_index = min (initialActiveCount (config s)) (length (preloadedZombies s)),
                         iv_cleared = False \<rparr>]"
  by (simp_all add: activatePreloadedZombies_def scheduleRemainingZombies_def Let_def min_def)

lemma activation_batch_fields:
  "index \<le> length (preloadedZombies s) \<Longrightarrow>
   fst (activation_batch n index s) = min (index + n) (length (preloadedZombies s))
   \<and> enemies (snd (activation_batch n index s))
        = enemies s @ take n (drop index (preloadedZombies s))
   \<and> registry (snd (activation_batch n index s))
        = registry s @ take n (drop index (preloadedZombies s))
   \<and> preloadedZombies (snd (activation_batch n index s)) = preloadedZombies s
   \<and> config (snd (activation_batch n index s)) = config s
   \<and> intervals (snd (activation_batch n index s)) = intervals s"
proof (induction n arbitrary: index s)
  case 0
  then show ?case by simp
next
  case (Suc n)
  show ?case
  proof (cases "index < length (preloadedZombies s)")
    case True
    then have "Suc index \<le> length (preloadedZombies (activate (preloadedZombies s ! index) s))"
      by simp
    from Suc.IH [OF this] True show ?thesis
      by (simp add: take_Suc_conv_app_nth Cons_nth_drop_Suc [symmetric] min_def)
  next
    case False
    with Suc.prems show ?thesis by simp
  qed
qed

lemma fireInterval_staged:
  assumes "staged k idx s0 s"
  shows "staged k (min (idx + activationRate (config s0)) (length (preloadedZombies s0))) s0
           (fireInterval k s)"
proof (cases "iv_cleared (intervals s ! k)")
  case True
  with assms show ?thesis by (simp add: staged_def fireInterval_def)
next
  case False
  note open_iv = this
  show ?thesis
  proof (cases "idx \<ge> length (preloadedZombies s0)")
    case True
    with assms open_iv show ?thesis by (simp add: staged_def fireInterval_def Let_def)
  next
    case False
    let ?r = "activation_batch (activationRate (config s)) idx s"
    from assms have le: "idx \<le> length (preloadedZombies s)" by (simp add: staged_def)
    note b = activation_batch_fields [OF le, of "activationRate (config s)"]
    from assms have e: "enemies s = take idx (preloadedZombies s0)"
      and p: "preloadedZombies s = preloadedZombies s0" and c: "config s = config s0"
      and k: "k < length (intervals s)" and i: "iv_index (intervals s ! k) = idx"
      by (simp_all add: staged_def)
    have f: "fireInterval k s
        = (snd ?r)\<lparr> intervals := (intervals (snd ?r))[k := (intervals (snd ?r) ! k)\<lparr> iv_index := fst ?r \<rparr>] \<rparr>"
      using open_iv False k i p by (simp add: fireInterval_def Let_def)
    have t: "take idx (preloadedZombies s0) @ take (activationRate (config s0)) (drop idx (preloadedZombies s0))
        = take (min (idx + activationRate (config s0)) (length (preloadedZombies s0))) (preloadedZombies s0)"
      by (simp add: take_add min_def)
    show ?thesis
      unfolding f using b e p c k False open_iv t by (simp add: staged_def)
  qed
qed

lemma fireInterval_many_staged:
  assumes "staged k idx s0 s"
  shows "staged k (min (idx + n * activationRate (config s0)) (length (preloadedZombies s0))) s0
           ((fireInterval k ^^ n) s)"
proof (induction n)
  case 0
  from assms have "idx \<le> length (preloadedZombies s0)" by (simp add: staged_def)
  with assms show ?case by (simp add: min_def)
next
  case (Suc n)
  have "min (min (idx + n * activationRate (config s0)) (length (preloadedZombies s0))
             + activationRate (config s0)) (length (preloadedZombies s0))
      = min (idx + Suc n * activationRate (config s0)) (length (preloadedZombies s0))"
    by (simp add: min_def)
  with fireInterval_staged [OF Suc] show ?case by simp
qed

lemma getSpawnPosition_succeeds: "\<exists>pos. getSpawnPosition d s = Inr pos"
proof (cases "spawnAreas s")
  case Nil
  then show ?thesis by (simp add: getSpawnPosition_def)
next
  case (Cons a as)
  then show ?thesis
    by (simp add: getSpawnPosition_def selectWeightedSpawnArea_def split: option.splits)
qed

lemma preload_one_succeeds:
  assumes "enemyTypes s \<noteq> []"
  shows "\<exists>z. preload_one d s
            = Inr (s\<lparr> store := store s @ [z],
                      preloadedZombies := preloadedZombies s @ [length (store s)] \<rparr>)
          \<and> \<not> enabled z \<and> isAlive z"
proof -
  from getRandomEnemyType_member [OF assms, of "d_type d"]
  obtain ty where ty: "getRandomEnemyType (d_type d) s = Some ty" by blast
  from getSpawnPosition_succeeds obtain pos where pos: "getSpawnPosition d s = Inr pos" by blast
  let ?z = "(init (new_Zombie pos
      \<lparr> p_health = Some (type_health ty), p_speed = Some (type_speed ty),
        p_damage = Some (type_damage ty), p_detectionRange = Some (type_detectionRange ty),
        p_type = Some (type_id ty) \<rparr>))\<lparr> enabled := False \<rparr>"
  have "preload_one d s
      = Inr (s\<lparr> store := store s @ [?z],
                preloadedZombies := preloadedZombies s @ [length (store s)] \<rparr>)"
    by (simp add: preload_one_def ty pos Let_def)
  moreover have "\<not> enabled ?z \<and> isAlive ?z"
    by (simp add: init_def optimizeForLargeNumbers_def changeState_def new_Zombie_def)
  ultimately show ?thesis by blast
qed

lemma preload_loop_succeeds:
  assumes "enemyTypes s \<noteq> []"
  shows "\<exists>s'. preload_loop ds i n s = Inr s'
          \<and> length (preloadedZombies s') = length (preloadedZombies s) + n
          \<and> config s' = config s \<and> enemies s' = enemies s \<and> intervals s' = intervals s
          \<and> registry s' = registry s \<and> mgr_enabled s' = mgr_enabled s"
  using assms
proof (induction n arbitrary: i s)
  case 0
  then show ?case by simp
next
  case (Suc n)
  from preload_one_succeeds [OF Suc.prems, of "ds i"]
  obtain z where one: "preload_one (ds i) s
      = Inr (s\<lparr> store := store s @ [z], preloadedZombies := preloadedZombies s @ [length (store s)] \<rparr>)"
    by blast
  let ?s = "s\<lparr> store := store s @ [z], preloadedZombies := preloadedZombies s @ [length (store s)] \<rparr>"
  from Suc.prems have "enemyTypes ?s \<noteq> []" by simp
  from Suc.IH [OF this, of "Suc i"] one show ?case by auto
qed

lemma preloadZombies_succeeds:
  assumes "enemyTypes s \<noteq> []"
  shows "\<exists>s'. preloadZombies ds True s = Inr (True, s')
          \<and> length (preloadedZombies s') = length (preloadedZombies s) + maxEnemies (config s)
          \<and> config s' = config s \<and> enemies s' = enemies s \<and> intervals s' = intervals s
          \<and> registry s' = registry s \<and> mgr_enabled s' = mgr_enabled s \<and> preloadComplete s'"
proof -
  from preload_loop_succeeds [OF assms, of ds 0 "maxEnemies (config s)"]
  obtain s' where "preload_loop ds 0 (maxEnemies (config s)) s = Inr s'"
    "length (preloadedZombies s') = length (preloadedZombies s) + maxEnemies (config s)"
    "config s' = config s" "enemies s' = enemies s" "intervals s' = intervals s"
    "registry s' = registry s" "mgr_enabled s' = mgr_enabled s" by blast
  then show ?thesis
    by (intro exI [of _ "s'\<lparr> preloadComplete := True \<rparr>"]) (simp add: preloadZombies_def)
qed

lemma activatePreloadedZombies_staged:
  assumes "enemies s = []" and "intervals s = []"
  shows "staged 0 (min (initialActiveCount (config s)) (length (preloadedZombies s)))
           (activatePreloadedZombies s) (activatePreloadedZombies s)"
  using assms by (simp add: staged_def activatePreloadedZombies_fields min_def)

lemma reach_iff:
  assumes "0 < r"
  shows "min 10 (3 + n * r) = (10::nat) \<longleftrightarrow> nat \<lceil>7 / real r\<rceil> \<le> n"
proof -
  have "nat \<lceil>7 / real r\<rceil> \<le> n \<longleftrightarrow> \<lceil>7 / real r\<rceil> \<le> int n"
    by (simp add: nat_le_iff)
  also have "\<dots> \<longleftrightarrow> 7 / real r \<le> real n"
    by (simp add: ceiling_le_iff)
  also have "\<dots> \<longleftrightarrow> 7 \<le> real n * real r"
    using assms by (simp add: pos_divide_le_eq)
  also have "\<dots> \<longleftrightarrow> 7 \<le> n * r"
    by (metis of_nat_le_iff of_nat_mult of_nat_numeral)
  finally show ?thesis by auto
qed

text \<open>
  Claim C8.  A manager that has archetypes, a maximal population of 10, an initial active
  count of 3, a positive activation rate, and empty rosters and no timer yet: the preload
  succeeds and preloads 10 agents; activating the initial batch makes the active roster
  the first 3 preloaded agents; after \<open>n\<close> firings of the timer it is the first
  \<open>min 10 (3 + n * rate)\<close> preloaded agents, which never exceeds the maximal
  population and is all 10 exactly from the firing number \<open>\<lceil>7 / rate\<rceil>\<close> on.
\<close>

theorem staged_activation_scenario:
  assumes "enemyTypes s0 \<noteq> []"
    and "maxEnemies (config s0) = 10"
    and "initialActiveCount (config s0) = 3"
    and "0 < activationRate (config s0)"
    and "preloadedZombies s0 = []" and "enemies s0 = []" and "intervals s0 = []"
  shows "\<exists>s1. preloadZombies ds True s0 = Inr (True, s1)
    \<and> length (preloadedZombies s1) = 10
    \<and> enemies (activatePreloadedZombies s1) = take 3 (preloadedZombies s1)
    \<and> length (enemies (activatePreloadedZombies s1)) = 3
    \<and> (\<forall>n. enemies ((fireInterval 0 ^^ n) (activatePreloadedZombies s1))
              = take (min 10 (3 + n * activationRate (config s0))) (preloadedZombies s1)
            \<and> length (enemies ((fireInterval 0 ^^ n) (activatePreloadedZombies s1)))
              = min 10 (3 + n * activationRate (config s0))
            \<and> length (enemies ((fireInterval 0 ^^ n) (activatePreloadedZombies s1)))
                \<le> maxEnemies (config s0)
            \<and> (length (enemies ((fireInterval 0 ^^ n) (activatePreloadedZombies s1))) = 10
                 \<longleftrightarrow> nat \<lceil>7 / real (activationRate (config s0))\<rceil> \<le> n))"
proof -
  from preloadZombies_succeeds [OF assms(1), of ds] assms
  obtain s1 where s1: "preloadZombies ds True s0 = Inr (True, s1)"
    "length (preloadedZombies s1) = 10" "config s1 = config s0" "enemies s1 = []"
    "intervals s1 = []" by auto
  let ?s2 = "activatePreloadedZombies s1"
  let ?r = "activationRate (config s0)"
  have c2: "config ?s2 = config s0" and p2: "length (preloadedZombies ?s2) = 10"
    using s1 by (simp_all add: activatePreloadedZombies_fields)
  have roster: "enemies ?s2 = take 3 (preloadedZombies s1)"
    using s1 assms(3) by (simp add: activatePreloadedZombies_fields)
  have first: "length (enemies ?s2) = 3"
    using s1 assms(3) by (simp add: activatePreloadedZombies_fields)
  have st: "staged 0 3 ?s2 ?s2"
    using activatePreloadedZombies_staged [OF s1(4) s1(5)] s1 assms(3) by simp
  have q2: "preloadedZombies ?s2 = preloadedZombies s1"
    by (simp add: activatePreloadedZombies_fields)
  have grown: "enemies ((fireInterval 0 ^^ n) ?s2)
      = take (min 10 (3 + n * ?r)) (preloadedZombies s1)" for n
    using fireInterval_many_staged [OF st, of n] s1(2)
    by (simp add: staged_def c2 q2 min.commute)
  have len: "length (enemies ((fireInterval 0 ^^ n) ?s2)) = min 10 (3 + n * ?r)" for n
    using s1(2) by (simp add: grown)
  have "enemies ((fireInterval 0 ^^ n) ?s2) = take (min 10 (3 + n * ?r)) (preloadedZombies s1)
      \<and> length (enemies ((fireInterval 0 ^^ n) ?s2)) = min 10 (3 + n * ?r)
      \<and> length (enemies ((fireInterval 0 ^^ n) ?s2)) \<le> maxEnemies (config s0)
      \<and> (length (enemies ((fireInterval 0 ^^ n) ?s2)) = 10 \<longleftrightarrow> nat \<lceil>7 / real ?r\<rceil> \<le> n)" for n
    using grown [of n] len [of n] reach_iff [OF assms(4), of n] assms(2) by simp
  with s1(1) s1(2) roster first show ?thesis by blast
qed


text \<open>
  The theorem at the default manager configured for 10 agents, 3 at first and 2 per
  firing: 3 agents at once, 9 after three firings, 10 after \<open>\<lceil>7 / 2\<rceil> = 4\<close>.
\<close>

theorem staged_activation_scenario_witness:
  "\<exists>s1. preloadZombies zero_draws True
           (configure (population 10 3 2) (init_manager new_EnemyManager)) = Inr (True, s1)
     \<and> length (enemies (activatePreloadedZombies s1)) = 3
     \<and> length (enemies ((fireInterval 0 ^^ 3) (activatePreloadedZombies s1))) = 9
     \<and> length (enemies ((fireInterval 0 ^^ 4) (activatePreloadedZombies s1))) = 10"
proof -
  let ?s0 = "configure (population 10 3 2) (init_manager new_EnemyManager)"
  have "enemyTypes ?s0 \<noteq> []" "maxEnemies (config ?s0) = 10"
    "initialActiveCount (config ?s0) = 3" "0 < activationRate (config ?s0)"
    "preloadedZombies ?s0 = []" "enemies ?s0 = []" "intervals ?s0 = []"
    and rate: "activationRate (config ?s0) = 2"
    by (simp_all add: configure_def population_def merge_config_def init_manager_def
        registerDefaultEnemyTypes_def new_EnemyManager_def)
  from staged_activation_scenario [OF this(1-7), of zero_draws]
  obtain s1 where s1: "preloadZombies zero_draws True ?s0 = Inr (True, s1)"
    "length (enemies (activatePreloadedZombies s1)) = 3"
    "\<And>n. length (enemies ((fireInterval 0 ^^ n) (activatePreloadedZombies s1)))
       = min 10 (3 + n * activationRate (config ?s0))"
    by blast
  from s1(3) [of 3] s1(3) [of 4] s1(1,2) show ?thesis
    unfolding rate by (intro exI [of _ s1]) simp
qed

section \<open>The manager's tick\<close>

lemmas eval_defs =
  preloadZombies_def configure_def population_def merge_config_def init_manager_def
  registerDefaultEnemyTypes_def new_EnemyManager_def preload_one_def getRandomEnemyType_def
  map_values_def getSpawnPosition_def getDefaultSpawnPosition_def zero_draws_def Let_def
  init_def new_Zombie_def optimizeForLargeNumbers_def changeState_def js_or_def js_or_str_def
  activatePreloadedZombies_def scheduleRemainingZombies_def activate_def
  damage_agent_def takeDamage_def mgr_update_def clear_def addEntity_def removeEntity_def fireInterval_def

lemma foldl_activate_flags [simp]:
  "preloadComplete (foldl (\<lambda>s' a. activate a s') s as) = preloadComplete s"
  "mgr_enabled (foldl (\<lambda>s' a. activate a s') s as) = mgr_enabled s"
  by (induction as arbitrary: s) simp_all

text \<open>
  Claim C2, as the code has it.  When the manager is enabled and the preload is complete,
  a tick prunes the active roster to the agents whose \<open>isAlive\<close> is true, and leaves
  the entity registry (and the agents and the preloaded roster) as they were: the tick
  removes no agent from the registry.  When the manager is disabled or the preload is not complete,
  the tick changes nothing.
\<close>

theorem mgr_update_prunes_roster_only:
  "(mgr_enabled s \<and> preloadComplete s \<longrightarrow>
      enemies (mgr_update deltaTime s) = filter (\<lambda>a. isAlive (store s ! a)) (enemies s)
      \<and> (\<forall>a. a \<in> set (enemies (mgr_update deltaTime s))
               \<longleftrightarrow> a \<in> set (enemies s) \<and> isAlive (store s ! a))
      \<and> registry (mgr_update deltaTime s) = registry s
      \<and> store (mgr_update deltaTime s) = store s
      \<and> preloadedZombies (mgr_update deltaTime s) = preloadedZombies s)
   \<and> (\<not> (mgr_enabled s \<and> preloadComplete s) \<longrightarrow> mgr_update deltaTime s = s)"
  by (auto simp: mgr_update_def)

text \<open>
  The theorem at a manager that preloaded and activated one agent, which then took 100
  points of damage; and at the new manager, whose preload is not complete.
\<close>

theorem mgr_update_prunes_roster_only_witness:
  "(case preloadZombies zero_draws True
           (configure (population 1 1 2) (init_manager new_EnemyManager)) of
      Inl e \<Rightarrow> False
    | Inr (ok, s1) \<Rightarrow>
        mgr_enabled (damage_agent 0 100 (activatePreloadedZombies s1))
        \<and> preloadComplete (damage_agent 0 100 (activatePreloadedZombies s1))
        \<and> enemies (mgr_update (1 / 60) (damage_agent 0 100 (activatePreloadedZombies s1))) = []
        \<and> registry (mgr_update (1 / 60) (damage_agent 0 100 (activatePreloadedZombies s1)))
            = registry (damage_agent 0 100 (activatePreloadedZombies s1)))
   \<and> \<not> preloadComplete new_EnemyManager
   \<and> mgr_update (1 / 60) new_EnemyManager = new_EnemyManager"
proof -
  let ?start = "configure (population 1 1 2) (init_manager new_EnemyManager)"
  have "enemyTypes ?start \<noteq> []"
    by (simp add: configure_def population_def init_manager_def registerDefaultEnemyTypes_def
        new_EnemyManager_def)
  from preloadZombies_succeeds [OF this, of zero_draws]
  obtain s1 where s1: "preloadZombies zero_draws True ?start = Inr (True, s1)"
    "mgr_enabled s1 = mgr_enabled ?start" "preloadComplete s1"
    by blast
  let ?s = "damage_agent 0 100 (activatePreloadedZombies s1)"
  have "mgr_enabled ?start"
    by (simp add: configure_def population_def init_manager_def registerDefaultEnemyTypes_def
        new_EnemyManager_def)
  with s1(2,3) have on: "mgr_enabled ?s \<and> preloadComplete ?s"
    by (simp add: damage_agent_def activatePreloadedZombies_def scheduleRemainingZombies_def
        Let_def)
  have off: "\<not> preloadComplete new_EnemyManager"
    by (simp add: new_EnemyManager_def)
  have "s1 = snd (projr (preloadZombies zero_draws True ?start))"
    using s1(1) by simp
  then have dead: "enemies (mgr_update (1 / 60) ?s) = []"
    by (simp add: eval_defs)
  from mgr_update_prunes_roster_only [of ?s "1 / 60"] on
    mgr_update_prunes_roster_only [of new_EnemyManager "1 / 60"] off dead s1(1)
  show ?thesis by simp
qed

text \<open>
  Claim C2 as stated fails for the registry: a manager preloads and activates one agent,
  the agent takes 100 points of damage and dies; the tick removes it from the active
  roster, and the registry still holds it.
\<close>

theorem mgr_update_registry_counterexample:
  "(case preloadZombies zero_draws True
           (configure (population 1 1 2) (init_manager new_EnemyManager)) of
      Inl e \<Rightarrow> False
    | Inr (ok, s1) \<Rightarrow>
        mgr_enabled (damage_agent 0 100 (activatePreloadedZombies s1))
        \<and> preloadComplete (damage_agent 0 100 (activatePreloadedZombies s1))
        \<and> enemies (damage_agent 0 100 (activatePreloadedZombies s1)) = [0]
        \<and> registry (damage_agent 0 100 (activatePreloadedZombies s1)) = [0]
        \<and> \<not> isAlive (store (damage_agent 0 100 (activatePreloadedZombies s1)) ! 0)
        \<and> enemies (mgr_update (1 / 60) (damage_agent 0 100 (activatePreloadedZombies s1))) = []
        \<and> registry (mgr_update (1 / 60) (damage_agent 0 100 (activatePreloadedZombies s1)))
            = [0])"
  by (simp add: eval_defs)

section \<open>Clearing the manager while the activation timer is outstanding\<close>

lemma clear_fields [simp]:
  "intervals (clear s) = intervals s"
  "config (clear s) = config s"
  "store (clear s) = store s"
  "enemies (clear s) = []"
  "preloadedZombies (clear s) = []"
  by (simp_all add: clear_def)

text \<open>Activation only ever enables agents.\<close>

lemma activate_enabled:
  "enabled (store s ! b) \<Longrightarrow> enabled (store (activate a s) ! b)"
  "a < length (store s) \<Longrightarrow> enabled (store (activate a s) ! a)"
proof -
  show "enabled (store (activate a s) ! b)" if "enabled (store s ! b)"
  proof (cases "a < length (store s)")
    case True
    with that show ?thesis by (simp add: activate_def nth_list_update)
  next
    case False
    then have "(store s)[a := (store s ! a)\<lparr> enabled := True \<rparr>] = store s"
      by (intro list_update_beyond) simp
    with that show ?thesis by (simp add: activate_def)
  qed
  show "enabled (store (activate a s) ! a)" if "a < length (store s)"
    using that by (simp add: activate_def)
qed

lemma activation_batch_keeps_enabled:
  "enabled (store s ! b) \<Longrightarrow> enabled (store (snd (activation_batch n index s)) ! b)"
  by (induction n arbitrary: index s) (simp_all add: activate_enabled)

lemma activation_batch_length:
  "length (store (snd (activation_batch n index s))) = length (store s)"
  by (induction n arbitrary: index s) simp_all

lemma activation_batch_enables:
  "a \<in> set (take n (drop index (preloadedZombies s))) \<Longrightarrow> a < length (store s) \<Longrightarrow>
     enabled (store (snd (activation_batch n index s)) ! a)"
proof (induction n arbitrary: index s)
  case 0
  then show ?case by simp
next
  case (Suc n)
  show ?case
  proof (cases "index < length (preloadedZombies s)")
    case False
    with Suc.prems show ?thesis by simp
  next
    case True
    let ?b = "preloadedZombies s ! index"
    from True have split: "take (Suc n) (drop index (preloadedZombies s))
        = ?b # take n (drop (Suc index) (preloadedZombies s))"
      by (simp add: Cons_nth_drop_Suc [symmetric])
    show ?thesis
    proof (cases "a = ?b")
      case True
      with Suc.prems(2) have "enabled (store (activate ?b s) ! a)"
        by (simp add: activate_enabled)
      then have "enabled (store (snd (activation_batch n (Suc index) (activate ?b s))) ! a)"
        by (rule activation_batch_keeps_enabled)
      with \<open>index < length (preloadedZombies s)\<close> show ?thesis by simp
    next
      case False
      with Suc.prems(1) split
      have "a \<in> set (take n (drop (Suc index) (preloadedZombies (activate ?b s))))" by simp
      moreover from Suc.prems(2) have "a < length (store (activate ?b s))" by simp
      ultimately have "enabled (store (snd (activation_batch n (Suc index) (activate ?b s))) ! a)"
        by (rule Suc.IH)
      with True show ?thesis by simp
    qed
  qed
qed

text \<open>
  A firing of an outstanding timer whose index is within the preloaded roster: the next
  agents of the roster, from the index on, are appended to the active roster and enabled.
\<close>

lemma fireInterval_appends:
  assumes "k < length (intervals s)" and "\<not> iv_cleared (intervals s ! k)"
    and "iv_index (intervals s ! k) < length (preloadedZombies s)"
  shows "enemies (fireInterval k s)
           = enemies s @ take (activationRate (config s))
                           (drop (iv_index (intervals s ! k)) (preloadedZombies s))"
    and "store (fireInterval k s)
           = store (snd (activation_batch (activationRate (config s))
                           (iv_index (intervals s ! k)) s))"
  using assms activation_batch_fields
    [of "iv_index (intervals s ! k)" s "activationRate (config s)"]
  by (simp_all add: fireInterval_def Let_def)

text \<open>What a preload adds: fresh agents at fresh addresses, all disabled.\<close>

lemma preload_one_result:
  "preload_one d s = Inr s' \<Longrightarrow>
     \<exists>z. s' = s\<lparr> store := store s @ [z],
                  preloadedZombies := preloadedZombies s @ [length (store s)] \<rparr>
         \<and> \<not> enabled z"
  by (auto simp: preload_one_def Let_def split: option.splits sum.splits)

lemma preload_loop_result:
  "preload_loop ds i n s = Inr s' \<Longrightarrow>
     intervals s' = intervals s \<and> enemies s' = enemies s \<and> config s' = config s
     \<and> length (store s') = length (store s) + n
     \<and> preloadedZombies s'
         = preloadedZombies s @ [length (store s) ..< length (store s) + n]
     \<and> (\<forall>a. length (store s) \<le> a \<and> a < length (store s') \<longrightarrow> \<not> enabled (store s' ! a))
     \<and> (\<forall>a<length (store s). store s' ! a = store s ! a)
     \<and> enemyTypes s' = enemyTypes s"
proof (induction n arbitrary: i s)
  case 0
  then show ?case by auto
next
  case (Suc n)
  from Suc.prems obtain s1 where one: "preload_one (ds i) s = Inr s1"
    and rest: "preload_loop ds (Suc i) n s1 = Inr s'"
    by (cases "preload_one (ds i) s") simp_all
  from preload_one_result [OF one] obtain z where
    s1: "s1 = s\<lparr> store := store s @ [z],
                  preloadedZombies := preloadedZombies s @ [length (store s)] \<rparr>"
    and z: "\<not> enabled z" by blast
  note ih = Suc.IH [OF rest]
  let ?L = "length (store s)"
  from s1 have l1: "length (store s1) = Suc ?L" by simp
  from ih s1 have basic: "intervals s' = intervals s \<and> enemies s' = enemies s
      \<and> config s' = config s \<and> length (store s') = ?L + Suc n
      \<and> enemyTypes s' = enemyTypes s"
    by simp
  have "[?L ..< ?L + Suc n] = ?L # [Suc ?L ..< Suc ?L + n]"
    by (simp add: upt_rec)
  with ih s1 have pre: "preloadedZombies s' = preloadedZombies s @ [?L ..< ?L + Suc n]"
    by simp
  from ih l1 have old: "\<forall>a<Suc ?L. store s' ! a = store s1 ! a" by simp
  have keep: "\<forall>a<?L. store s' ! a = store s ! a"
  proof (intro allI impI)
    fix a assume a: "a < ?L"
    with old have "store s' ! a = store s1 ! a" by simp
    with a s1 show "store s' ! a = store s ! a" by (simp add: nth_append)
  qed
  have fresh: "\<forall>a. ?L \<le> a \<and> a < length (store s') \<longrightarrow> \<not> enabled (store s' ! a)"
  proof (intro allI impI)
    fix a assume a: "?L \<le> a \<and> a < length (store s')"
    show "\<not> enabled (store s' ! a)"
    proof (cases "a = ?L")
      case True
      with old have "store s' ! a = store s1 ! ?L" by simp
      with s1 z show ?thesis by (simp add: nth_append)
    next
      case False
      with a l1 have "length (store s1) \<le> a \<and> a < length (store s')" by simp
      with ih show ?thesis by blast
    qed
  qed
  from basic pre keep fresh show ?case by simp
qed

lemma preloadZombies_enemyTypes:
  "preloadZombies ds hasPlayer s = Inr (ok, s') \<Longrightarrow> enemyTypes s' = enemyTypes s"
  using preload_loop_result [of ds 0 "maxEnemies (config s)" s]
  by (auto simp: preloadZombies_def split: if_splits sum.splits)

lemma activatePreloadedZombies_enemyTypes:
  "enemyTypes (activatePreloadedZombies s) = enemyTypes s"
proof -
  have "enemyTypes (foldl (\<lambda>s' a. activate a s') s as) = enemyTypes s" for as
    by (induction as arbitrary: s) (simp_all add: activate_def)
  then show ?thesis
    by (simp add: activatePreloadedZombies_def scheduleRemainingZombies_def Let_def)
qed

lemma preloadZombies_after_clear:
  assumes "preloadZombies ds True (clear s) = Inr (True, s2)"
  shows "intervals s2 = intervals s" and "enemies s2 = []" and "config s2 = config s"
    and "preloadedZombies s2
           = [length (store s) ..< length (store s) + maxEnemies (config s)]"
    and "length (store s2) = length (store s) + maxEnemies (config s)"
    and "\<forall>a\<in>set (preloadedZombies s2). a < length (store s2) \<and> \<not> enabled (store s2 ! a)"
proof -
  from assms obtain s' where loop: "preload_loop ds 0 (maxEnemies (config s)) (clear s) = Inr s'"
    and s2: "s2 = s'\<lparr> preloadComplete := True \<rparr>"
    by (cases "preload_loop ds 0 (maxEnemies (config s)) (clear s)")
       (auto simp: preloadZombies_def)
  note r = preload_loop_result [OF loop]
  from r s2 show "intervals s2 = intervals s" and "enemies s2 = []" and "config s2 = config s"
    by simp_all
  from r s2 show pre: "preloadedZombies s2
           = [length (store s) ..< length (store s) + maxEnemies (config s)]"
    and len: "length (store s2) = length (store s) + maxEnemies (config s)"
    by simp_all
  from r s2 have "\<forall>a. length (store s) \<le> a \<and> a < length (store s2) \<longrightarrow> \<not> enabled (store s2 ! a)"
    by simp
  with pre len
  show "\<forall>a\<in>set (preloadedZombies s2). a < length (store s2) \<and> \<not> enabled (store s2 ! a)"
    by simp
qed

text \<open>
  Claim C4, as the code has it.  \<open>clear()\<close> does not cancel an outstanding timer: the
  timers are as before.  It empties the preloaded roster, so a firing of the timer right
  after \<open>clear()\<close> enables no agent, leaves the active roster empty and the registry
  as \<open>clear()\<close> left it, and cancels the timer itself; further firings change nothing.
  In every later state whose timers are as \<open>clear()\<close> left them, whose preloaded roster
  is longer than the timer's index and whose activation rate is positive, a firing of the
  timer appends to the active roster the next agents of the preloaded roster from the
  timer's index on, at least the one at the index, and enables them.  A new preload after
  \<open>clear()\<close> leads to such a state when the population is larger than the timer's
  index: it leaves the timers and the configuration alone, the active roster empty, and it
  preloads the configured number of agents, each one disabled.
\<close>

theorem clear_keeps_interval:
  assumes "k < length (intervals s)" and "\<not> iv_cleared (intervals s ! k)"
  shows "intervals (clear s) = intervals s
    \<and> enemies (fireInterval k (clear s)) = []
    \<and> store (fireInterval k (clear s)) = store s
    \<and> registry (fireInterval k (clear s)) = registry (clear s)
    \<and> iv_cleared (intervals (fireInterval k (clear s)) ! k)
    \<and> fireInterval k (fireInterval k (clear s)) = fireInterval k (clear s)
    \<and> (\<forall>s2. intervals s2 = intervals (clear s)
             \<and> iv_index (intervals s ! k) < length (preloadedZombies s2)
             \<and> 0 < activationRate (config s2) \<longrightarrow>
          enemies (fireInterval k s2)
            = enemies s2 @ take (activationRate (config s2))
                             (drop (iv_index (intervals s ! k)) (preloadedZombies s2))
          \<and> preloadedZombies s2 ! iv_index (intervals s ! k) \<in> set (enemies (fireInterval k s2))
          \<and> (\<forall>a\<in>set (take (activationRate (config s2))
                          (drop (iv_index (intervals s ! k)) (preloadedZombies s2))).
                a < length (store s2) \<longrightarrow> enabled (store (fireInterval k s2) ! a)))
    \<and> (\<forall>ds s2. preloadZombies ds True (clear s) = Inr (True, s2) \<longrightarrow>
          intervals s2 = intervals (clear s) \<and> config s2 = config s \<and> enemies s2 = []
          \<and> length (preloadedZombies s2) = maxEnemies (config s)
          \<and> (\<forall>a\<in>set (preloadedZombies s2).
                a < length (store s2) \<and> \<not> enabled (store s2 ! a)))"
proof -
  have direct: "intervals (clear s) = intervals s
    \<and> enemies (fireInterval k (clear s)) = []
    \<and> store (fireInterval k (clear s)) = store s
    \<and> registry (fireInterval k (clear s)) = registry (clear s)
    \<and> iv_cleared (intervals (fireInterval k (clear s)) ! k)
    \<and> fireInterval k (fireInterval k (clear s)) = fireInterval k (clear s)"
    using assms by (simp add: clear_def fireInterval_def)
  have refilled: "enemies (fireInterval k s2)
            = enemies s2 @ take (activationRate (config s2))
                             (drop (iv_index (intervals s ! k)) (preloadedZombies s2))
          \<and> preloadedZombies s2 ! iv_index (intervals s ! k) \<in> set (enemies (fireInterval k s2))
          \<and> (\<forall>a\<in>set (take (activationRate (config s2))
                          (drop (iv_index (intervals s ! k)) (preloadedZombies s2))).
                a < length (store s2) \<longrightarrow> enabled (store (fireInterval k s2) ! a))"
    if h: "intervals s2 = intervals (clear s)
             \<and> iv_index (intervals s ! k) < length (preloadedZombies s2)
             \<and> 0 < activationRate (config s2)" for s2
  proof -
    let ?i = "iv_index (intervals s ! k)"
    let ?new = "take (activationRate (config s2)) (drop ?i (preloadedZombies s2))"
    from h have iv: "intervals s2 = intervals s" by simp
    from h assms iv have k: "k < length (intervals s2)" "\<not> iv_cleared (intervals s2 ! k)"
      "iv_index (intervals s2 ! k) < length (preloadedZombies s2)" by simp_all
    note f = fireInterval_appends [OF k]
    from f(1) iv have en: "enemies (fireInterval k s2) = enemies s2 @ ?new" by simp
    from h obtain n where n: "activationRate (config s2) = Suc n"
      by (cases "activationRate (config s2)") simp_all
    from h have "?new = preloadedZombies s2 ! ?i # take n (drop (Suc ?i) (preloadedZombies s2))"
      by (simp add: n Cons_nth_drop_Suc [symmetric])
    with en have mem: "preloadedZombies s2 ! ?i \<in> set (enemies (fireInterval k s2))" by simp
    have "enabled (store (fireInterval k s2) ! a)" if "a \<in> set ?new" "a < length (store s2)" for a
      using activation_batch_enables [OF that] f(2) iv by simp
    with en mem show ?thesis by blast
  qed
  have preload: "intervals s2 = intervals (clear s) \<and> config s2 = config s \<and> enemies s2 = []
          \<and> length (preloadedZombies s2) = maxEnemies (config s)
          \<and> (\<forall>a\<in>set (preloadedZombies s2).
                a < length (store s2) \<and> \<not> enabled (store s2 ! a))"
    if "preloadZombies ds True (clear s) = Inr (True, s2)" for ds s2
    using preloadZombies_after_clear [OF that] by simp
  from refilled have refilled': "\<forall>s2. intervals s2 = intervals (clear s)
             \<and> iv_index (intervals s ! k) < length (preloadedZombies s2)
             \<and> 0 < activationRate (config s2) \<longrightarrow>
          enemies (fireInterval k s2)
            = enemies s2 @ take (activationRate (config s2))
                             (drop (iv_index (intervals s ! k)) (preloadedZombies s2))
          \<and> preloadedZombies s2 ! iv_index (intervals s ! k) \<in> set (enemies (fireInterval k s2))
          \<and> (\<forall>a\<in>set (take (activationRate (config s2))
                          (drop (iv_index (intervals s ! k)) (preloadedZombies s2))).
                a < length (store s2) \<longrightarrow> enabled (store (fireInterval k s2) ! a))"
    by (intro allI impI)
  from preload have preload': "\<forall>ds s2. preloadZombies ds True (clear s) = Inr (True, s2) \<longrightarrow>
          intervals s2 = intervals (clear s) \<and> config s2 = config s \<and> enemies s2 = []
          \<and> length (preloadedZombies s2) = maxEnemies (config s)
          \<and> (\<forall>a\<in>set (preloadedZombies s2).
                a < length (store s2) \<and> \<not> enabled (store s2 ! a))"
    by (intro allI impI)
  from direct refilled' preload' show ?thesis by (intro conjI) (elim conjE, assumption)+
qed

text \<open>
  The theorem at a manager that preloaded three agents and activated the first, so that
  its timer is outstanding at index 1 with the activation rate 2: right after
  \<open>clear()\<close> the firing activates nothing; after \<open>clear()\<close> and a new preload of
  three agents it appends the second of them to the active roster and enables it.
\<close>

theorem clear_keeps_interval_witness:
  "(case preloadZombies zero_draws True
           (configure (population 3 1 2) (init_manager new_EnemyManager)) of
      Inl e \<Rightarrow> False
    | Inr (ok, s1) \<Rightarrow>
        \<not> iv_cleared (intervals (activatePreloadedZombies s1) ! 0)
        \<and> \<not> iv_cleared (intervals (clear (activatePreloadedZombies s1)) ! 0)
        \<and> enemies (fireInterval 0 (clear (activatePreloadedZombies s1))) = []
        \<and> iv_cleared (intervals (fireInterval 0 (clear (activatePreloadedZombies s1))) ! 0)
        \<and> (case preloadZombies zero_draws True (clear (activatePreloadedZombies s1)) of
              Inl e \<Rightarrow> False
            | Inr (ok2, s2) \<Rightarrow>
                intervals s2 = intervals (clear (activatePreloadedZombies s1))
                \<and> enemies s2 = []
                \<and> \<not> enabled (store s2 ! (preloadedZombies s2 ! 1))
                \<and> preloadedZombies s2 ! 1 \<in> set (enemies (fireInterval 0 s2))
                \<and> enabled (store (fireInterval 0 s2) ! (preloadedZombies s2 ! 1))))"
proof -
  let ?start = "configure (population 3 1 2) (init_manager new_EnemyManager)"
  have start: "enemyTypes ?start \<noteq> []" "intervals ?start = []"
    "maxEnemies (config ?start) = 3" "initialActiveCount (config ?start) = 1"
    "activationRate (config ?start) = 2"
    by (simp_all add: configure_def population_def init_manager_def merge_config_def
        registerDefaultEnemyTypes_def new_EnemyManager_def)
  from preloadZombies_succeeds [OF start(1), of zero_draws] start
  obtain s1 where s1: "preloadZombies zero_draws True ?start = Inr (True, s1)"
    "intervals s1 = []" "config s1 = config ?start"
    "length (preloadedZombies s1) = length (preloadedZombies ?start) + 3"
    by auto
  from preloadZombies_enemyTypes [OF s1(1)] start(1) have s1_types: "enemyTypes s1 \<noteq> []"
    by simp
  let ?s = "activatePreloadedZombies s1"
  have k: "0 < length (intervals ?s)" "\<not> iv_cleared (intervals ?s ! 0)"
    using s1(2) by (simp_all add: activatePreloadedZombies_fields)
  have idx: "iv_index (intervals ?s ! 0) = 1"
    using s1(2,3,4) start(4) by (simp add: activatePreloadedZombies_fields)
  have cfg: "config ?s = config ?start"
    using s1(3) by (simp add: activatePreloadedZombies_fields)
  have types: "enemyTypes (clear ?s) \<noteq> []"
    using s1_types by (simp add: clear_def activatePreloadedZombies_enemyTypes)
  from preloadZombies_succeeds [OF types, of zero_draws]
  obtain s2 where s2: "preloadZombies zero_draws True (clear ?s) = Inr (True, s2)" by blast
  note t = clear_keeps_interval [OF k]
  note direct = t [THEN conjunct2, THEN conjunct1]
    t [THEN conjunct2, THEN conjunct2, THEN conjunct2, THEN conjunct2, THEN conjunct1]
  note preload = t [THEN conjunct2, THEN conjunct2, THEN conjunct2, THEN conjunct2,
    THEN conjunct2, THEN conjunct2, THEN conjunct2, rule_format, OF s2]
  from preload cfg start(3) have len: "length (preloadedZombies s2) = 3" by simp
  from preload cfg start(5) have rate: "activationRate (config s2) = 2" by simp
  from preload len have fresh: "\<not> enabled (store s2 ! (preloadedZombies s2 ! 1))"
    "preloadedZombies s2 ! 1 < length (store s2)"
    by simp_all
  have h: "intervals s2 = intervals (clear ?s)
      \<and> iv_index (intervals ?s ! 0) < length (preloadedZombies s2)
      \<and> 0 < activationRate (config s2)"
    using preload idx len rate by simp
  note refilled = t [THEN conjunct2, THEN conjunct2, THEN conjunct2, THEN conjunct2,
    THEN conjunct2, THEN conjunct2, THEN conjunct1, rule_format, OF h]
  from refilled [THEN conjunct2, THEN conjunct1] idx
  have mem: "preloadedZombies s2 ! 1 \<in> set (enemies (fireInterval 0 s2))"
    by simp
  from idx rate len have "preloadedZombies s2 ! 1
      \<in> set (take (activationRate (config s2))
                (drop (iv_index (intervals ?s ! 0)) (preloadedZombies s2)))"
    by (simp add: numeral_2_eq_2 Cons_nth_drop_Suc [symmetric])
  with refilled [THEN conjunct2, THEN conjunct2] fresh(2)
  have en: "enabled (store (fireInterval 0 s2) ! (preloadedZombies s2 ! 1))"
    by blast
  from s1(1) s2 k(2) direct preload fresh(1) mem en show ?thesis by simp
qed

text \<open>
  Claim C4 as stated fails.  Three agents are preloaded and the first is activated; the
  timer stands at index 1.  \<open>clear()\<close> leaves the timer outstanding.  Three fresh
  agents (addresses 3, 4, 5) are preloaded; then the old timer fires: it enables the
  fresh agents 4 and 5 and appends them to the active roster.
\<close>

theorem clear_keeps_interval_counterexample:
  "(case preloadZombies zero_draws True
           (configure (population 3 1 2) (init_manager new_EnemyManager)) of
      Inl e \<Rightarrow> False
    | Inr (ok1, s1) \<Rightarrow>
        \<not> iv_cleared (intervals (activatePreloadedZombies s1) ! 0)
        \<and> \<not> iv_cleared (intervals (clear (activatePreloadedZombies s1)) ! 0)
        \<and> (case preloadZombies zero_draws True (clear (activatePreloadedZombies s1)) of
              Inl e \<Rightarrow> False
            | Inr (ok2, s2) \<Rightarrow>
                enemies s2 = []
                \<and> \<not> enabled (store s2 ! 4)
                \<and> enemies (fireInterval 0 s2) = [4, 5]
                \<and> enabled (store (fireInterval 0 s2) ! 4)))"
  by (simp add: eval_defs numeral_3_eq_3 numeral_2_eq_2)

section \<open>The agent: invariants of the reachable worlds\<close>

lemmas world_defs =
  spawn_world_def init_def new_Zombie_def optimizeForLargeNumbers_def
  changeState_def js_or_def js_or_str_def origin_def tank_def standard_def player_at_def
  update_def updatePerception_def onPlayerSpotted_def processStateMachine_def
  processIdleState_def processChaseState_def processAttackState_def beyond_def
  enginePlayerPosition_def distanceTo_def dealDamage_def returnToChase_def takeDamage_def
  Let_def fl_fifth fl_nonpos

lemma changeState_fields [simp]:
  "state (changeState n z) = n"
  "canSeePlayer (changeState n z) = canSeePlayer z"
  "updatePerceptionTime (changeState n z) = updatePerceptionTime z"
  "perceptionUpdateRate (changeState n z) = perceptionUpdateRate z"
  "enabled (changeState n z) = enabled z"
  "position (changeState n z) = position z"
  "body_position (changeState n z) = body_position z"
  "detectionRange (changeState n z) = detectionRange z"
  "attackRange (changeState n z) = attackRange z"
  "attackDamage (changeState n z) = attackDamage z"
  "health (changeState n z) = health z"
  "farDistance (changeState n z) = farDistance z"
  "skipAnimationWhenFar (changeState n z) = skipAnimationWhenFar z"
  by (simp_all add: changeState_def Let_def)

lemma changeState_isAlive:
  "isAlive (changeState n z) = (isAlive z \<and> (n = Death \<longrightarrow> state z = Death))"
  by (auto simp: changeState_def Let_def)

lemma changeState_stateLog:
  "stateLog (changeState n z)
     = (if n = state z then stateLog z else stateLog z @ [(state z, n)])"
  by (simp add: changeState_def Let_def)

lemma agent_ok_spawn: "agent_ok (init (new_Zombie pos props))"
  by (simp add: agent_ok_def init_def changeState_isAlive optimizeForLargeNumbers_def new_Zombie_def
      fl_nonneg)

lemma agent_ok_takeDamage: "agent_ok z \<Longrightarrow> agent_ok (takeDamage amount z)"
  by (auto simp: agent_ok_def takeDamage_def Let_def changeState_isAlive)

text \<open>The rounded countdown stays at or below the perception rate, which is a double.\<close>

lemma countdown_bound: "0 \<le> dt \<Longrightarrow> t \<le> fl r \<Longrightarrow> fl (t - dt) \<le> fl r"
  using fl_mono [of "t - dt" "fl r"] by (simp add: fl_fl)

lemma updatePerception_ok:
  "0 \<le> dt \<Longrightarrow> agent_ok z \<Longrightarrow> agent_ok (updatePerception dt p z)"
  by (auto simp: agent_ok_def updatePerception_def onPlayerSpotted_def Let_def changeState_isAlive
      countdown_bound split: option.splits)

lemma processChaseState_ok:
  "agent_ok z \<Longrightarrow> state z = Chase \<Longrightarrow> agent_ok (processChaseState dt p z)"
  by (auto simp: agent_ok_def processChaseState_def Let_def changeState_isAlive
      split: option.splits)

lemma processAttackState_ok:
  "agent_ok z \<Longrightarrow> state z = Attack \<Longrightarrow> agent_ok (fst (processAttackState dt p z))"
  by (auto simp: agent_ok_def processAttackState_def Let_def changeState_isAlive
      split: option.splits)


lemma processStateMachine_ok:
  assumes "agent_ok z"
  shows "agent_ok (fst (processStateMachine dt p z))"
proof -
  from assms have "\<not> (state z = Idle \<and> canSeePlayer z)" by (simp add: agent_ok_def)
  then have psm: "processStateMachine dt p z
      = (case state z of
           Idle \<Rightarrow> (processIdleState dt z, [])
         | Chase \<Rightarrow> (processChaseState dt p z, [])
         | Attack \<Rightarrow> processAttackState dt p z
         | Death \<Rightarrow> (z, []))"
    by (cases "state z = Idle") (simp_all add: processStateMachine_def)
  show ?thesis
    unfolding psm using assms
    by (cases "state z")
      (simp_all add: processIdleState_def processChaseState_ok processAttackState_ok)
qed

lemma update_ok:
  assumes "0 \<le> dt" and "agent_ok z"
  shows "agent_ok (fst (update dt p z))"
proof -
  let ?z1 = "z\<lparr> timeSinceSpawn := timeSinceSpawn z + dt,
                 timeInCurrentState := timeInCurrentState z + dt \<rparr>"
  from assms(2) have z1: "agent_ok ?z1" by (simp add: agent_ok_def)
  have moved: "agent_ok (y\<lparr> position := q \<rparr>)" if "agent_ok y" for y q
    using that by (simp add: agent_ok_def)
  from updatePerception_ok [OF assms(1) z1, of p]
  have "agent_ok (fst (processStateMachine dt p (updatePerception dt p ?z1)))"
    by (rule processStateMachine_ok)
  with z1 assms(2) show ?thesis
    by (simp add: update_def Let_def moved)
qed

lemma updatePerception_log:
  "\<exists>xs. stateLog (updatePerception dt p z) = stateLog z @ xs
        \<and> (xs = [] \<or> xs = [(Idle, Chase)] \<and> state z = Idle
              \<and> (\<exists>pp. p = Some pp \<and> distanceTo (position z) pp \<le> detectionRange z))"
  by (auto simp: updatePerception_def onPlayerSpotted_def Let_def changeState_stateLog
      split: option.splits)

lemma processChaseState_log:
  "state z = Chase \<Longrightarrow>
   \<exists>xs. stateLog (processChaseState dt p z) = stateLog z @ xs
        \<and> (xs = [] \<or> xs = [(Chase, Attack)] \<or> xs = [(Chase, Idle)])"
  by (auto simp: processChaseState_def Let_def changeState_stateLog split: option.splits)

lemma processAttackState_log:
  "state z = Attack \<Longrightarrow>
   \<exists>xs. stateLog (fst (processAttackState dt p z)) = stateLog z @ xs
        \<and> (xs = [] \<or> xs = [(Attack, Chase)])"
  by (auto simp: processAttackState_def Let_def changeState_stateLog split: option.splits)

lemma processStateMachine_log:
  assumes "\<not> (state z = Idle \<and> canSeePlayer z)"
  shows "\<exists>xs. stateLog (fst (processStateMachine dt p z)) = stateLog z @ xs
          \<and> (xs = [] \<or> xs = [(Chase, Attack)] \<or> xs = [(Chase, Idle)] \<or> xs = [(Attack, Chase)])"
proof -
  from assms have psm: "processStateMachine dt p z
      = (case state z of
           Idle \<Rightarrow> (processIdleState dt z, [])
         | Chase \<Rightarrow> (processChaseState dt p z, [])
         | Attack \<Rightarrow> processAttackState dt p z
         | Death \<Rightarrow> (z, []))"
    by (cases "state z = Idle") (simp_all add: processStateMachine_def)
  show ?thesis
  proof (cases "state z")
    case Idle
    then show ?thesis by (simp add: psm processIdleState_def)
  next
    case Chase
    with processChaseState_log [OF Chase, of dt p] show ?thesis by (auto simp: psm)
  next
    case Attack
    with processAttackState_log [OF Attack, of dt p] show ?thesis by (auto simp: psm)
  next
    case Death
    then show ?thesis by (simp add: psm)
  qed
qed

lemma processStateMachine_log_grows:
  "\<exists>xs. stateLog (fst (processStateMachine dt p z)) = stateLog z @ xs"
proof (cases "state z = Idle \<and> canSeePlayer z")
  case False
  with processStateMachine_log [of z dt p] show ?thesis by blast
next
  case True
  let ?c = "changeState Chase z"
  have c: "state ?c = Chase" by simp
  from True have "processStateMachine dt p z = (processChaseState dt p ?c, [])"
    by (simp add: processStateMachine_def)
  moreover from processChaseState_log [OF c, of dt p]
  obtain xs where "stateLog (processChaseState dt p ?c) = stateLog ?c @ xs" by blast
  moreover from True have "stateLog ?c = stateLog z @ [(Idle, Chase)]"
    by (simp add: changeState_stateLog)
  ultimately show ?thesis by simp
qed

lemma update_log_grows:
  "\<exists>xs. stateLog (fst (update dt p z)) = stateLog z @ xs"
proof -
  let ?z1 = "z\<lparr> timeSinceSpawn := timeSinceSpawn z + dt,
                 timeInCurrentState := timeInCurrentState z + dt \<rparr>"
  from updatePerception_log [of dt p ?z1]
  obtain xs where xs: "stateLog (updatePerception dt p ?z1) = stateLog z @ xs" by auto
  from processStateMachine_log_grows [of dt p "updatePerception dt p ?z1"]
  obtain ys where "stateLog (fst (processStateMachine dt p (updatePerception dt p ?z1)))
      = stateLog z @ xs @ ys" using xs by auto
  then show ?thesis
    by (auto simp: update_def Let_def)
qed

lemma step_log_grows:
  "\<exists>xs. stateLog (agent (step e w)) = stateLog (agent w) @ xs"
proof (cases e)
  case (Update dt)
  with update_log_grows [of dt "enginePlayerPosition w" "agent w"] show ?thesis
    by (simp add: Let_def)
next
  case (Hit amount)
  then show ?thesis by (simp add: takeDamage_def Let_def changeState_stateLog)
next
  case (Fire i)
  show ?thesis
  proof (cases "snd (timeouts w ! i)")
    case DealDamage
    with Fire show ?thesis by (simp add: dealDamage_def)
  next
    case ReturnToChase
    with Fire show ?thesis by (simp add: returnToChase_def changeState_stateLog)
  qed
qed simp_all

lemma run_log_grows:
  "\<exists>xs. stateLog (agent (run es w)) = stateLog (agent w) @ xs"
proof (induction es arbitrary: w)
  case Nil
  show ?case by simp
next
  case (Cons e es)
  from step_log_grows [of e w] obtain xs where "stateLog (agent (step e w)) = stateLog (agent w) @ xs"
    by blast
  moreover from Cons [of "step e w"] obtain ys where
    "stateLog (agent (run es (step e w))) = stateLog (agent (step e w)) @ ys" by blast
  ultimately show ?case by simp
qed

lemma step_ok:
  assumes "agent_ok (agent w)" and "valid_event e"
  shows "agent_ok (agent (step e w))"
proof (cases e)
  case (Update dt)
  with assms update_ok [of dt "agent w" "enginePlayerPosition w"] show ?thesis
    by (simp add: Let_def)
next
  case (Hit amount)
  with assms show ?thesis by (simp add: agent_ok_takeDamage)
next
  case (Fire i)
  show ?thesis
  proof (cases "snd (timeouts w ! i)")
    case DealDamage
    with Fire assms show ?thesis by (simp add: dealDamage_def)
  next
    case ReturnToChase
    with Fire assms show ?thesis
      by (auto simp: returnToChase_def agent_ok_def changeState_isAlive)
  qed
next
  case (Physics pos)
  with assms show ?thesis by (simp add: agent_ok_def)
next
  case (SetEnabled b)
  with assms show ?thesis by (simp add: agent_ok_def)
qed (use assms in simp_all)

lemma reachable_ok: "reachable w \<Longrightarrow> agent_ok (agent w)"
proof (induction rule: reachable.induct)
  case (spawn pos props pl attached t)
  show ?case by (simp add: spawn_world_def agent_ok_spawn)
next
  case (event w e)
  then show ?case by (simp add: step_ok)
qed

lemma updatePerception_state:
  "state z \<noteq> Idle \<Longrightarrow> state (updatePerception dt p z) = state z"
  by (simp add: updatePerception_def Let_def split: option.splits)

lemma processStateMachine_Death:
  "state z = Death \<Longrightarrow> processStateMachine dt p z = (z, [])"
  by (simp add: processStateMachine_def)

lemma update_Death:
  assumes "state z = Death"
  shows "state (fst (update dt p z)) = Death"
proof -
  let ?z1 = "z\<lparr> timeSinceSpawn := timeSinceSpawn z + dt,
                 timeInCurrentState := timeInCurrentState z + dt \<rparr>"
  from assms have "state (updatePerception dt p ?z1) = Death"
    by (simp add: updatePerception_state)
  then have "state (fst (processStateMachine dt p (updatePerception dt p ?z1))) = Death"
    by (simp add: processStateMachine_Death)
  with assms show ?thesis by (simp add: update_def Let_def)
qed

lemma step_Death:
  assumes "state (agent w) = Death"
  shows "state (agent (step e w)) = Death"
proof (cases e)
  case (Update dt)
  with assms update_Death [of "agent w" dt "enginePlayerPosition w"] show ?thesis
    by (simp add: Let_def)
next
  case (Hit amount)
  with assms show ?thesis by (simp add: takeDamage_def Let_def)
next
  case (Fire i)
  show ?thesis
  proof (cases "snd (timeouts w ! i)")
    case DealDamage
    with Fire assms show ?thesis by (simp add: dealDamage_def)
  next
    case ReturnToChase
    with Fire assms show ?thesis by (simp add: returnToChase_def)
  qed
qed (use assms in simp_all)

lemma step_player:
  "damageTaken (thePlayer (step e w)) = damageTaken (thePlayer w)
   \<or> (\<exists>i due. e = Fire i \<and> i < length (timeouts w) \<and> timeouts w ! i = (due, DealDamage)
         \<and> due \<le> now w \<and> state (agent w) = Attack \<and> canTakeDamage (thePlayer w)
         \<and> distanceTo (position (agent w)) (player_pos (thePlayer w)) \<le> attackRange (agent w)
         \<and> damageTaken (thePlayer (step e w)) = damageTaken (thePlayer w) @ [20])"
proof (cases e)
  case (Update dt)
  then show ?thesis by (simp add: Let_def)
next
  case (Fire i)
  show ?thesis
  proof (cases "i < length (timeouts w) \<and> fst (timeouts w ! i) \<le> now w")
    case False
    with Fire show ?thesis by auto
  next
    case True
    show ?thesis
    proof (cases "snd (timeouts w ! i)")
      case DealDamage
      with True have "timeouts w ! i = (fst (timeouts w ! i), DealDamage)"
        by (metis prod.collapse)
      with Fire True DealDamage show ?thesis
        by (auto simp: dealDamage_def)
    next
      case ReturnToChase
      with Fire True show ?thesis by (simp add: returnToChase_def)
    qed
  qed
qed simp_all

lemma step_player_Death:
  "state (agent w) = Death \<Longrightarrow> damageTaken (thePlayer (step e w)) = damageTaken (thePlayer w)"
  using step_player [of e w] by auto

lemma run_player_Death:
  "state (agent w) = Death \<Longrightarrow> damageTaken (thePlayer (run es w)) = damageTaken (thePlayer w)"
proof (induction es arbitrary: w)
  case Nil
  show ?case by simp
next
  case (Cons e es)
  from Cons.prems have "state (agent (step e w)) = Death" by (rule step_Death)
  from Cons.IH [OF this] Cons.prems show ?case by (simp add: step_player_Death)
qed

lemma update_timeouts:
  "snd (update dt p z) = [] \<or> snd (update dt p z) = [(500, DealDamage), (1200, ReturnToChase)]"
  by (auto simp: update_def processStateMachine_def processAttackState_def Let_def
      split: zstate.splits option.splits)

lemma step_timeouts:
  "timeouts (step e w) = timeouts w
   \<or> (\<exists>dt. e = Update dt
         \<and> timeouts (step e w)
             = timeouts w @ [(now w + 500, DealDamage), (now w + 1200, ReturnToChase)])
   \<or> (\<exists>i. e = Fire i \<and> i < length (timeouts w) \<and> fst (timeouts w ! i) \<le> now w
         \<and> timeouts (step e w) = take i (timeouts w) @ drop (Suc i) (timeouts w))"
proof (cases e)
  case (Update dt)
  with update_timeouts [of dt "enginePlayerPosition w" "agent w"] show ?thesis
    by (auto simp: Let_def)
next
  case (Fire i)
  show ?thesis
  proof (cases "snd (timeouts w ! i)")
    case DealDamage
    with Fire show ?thesis by (simp add: dealDamage_def)
  next
    case ReturnToChase
    with Fire show ?thesis by (simp add: returnToChase_def)
  qed
qed simp_all

lemma lethal_hit:
  assumes "reachable w" and "isAlive (agent w)" and "health (agent w) - amount \<le> 0"
  shows "state (takeDamage amount (agent w)) = Death \<and> \<not> isAlive (takeDamage amount (agent w))"
proof -
  from reachable_ok [OF assms(1)] assms(2) have "state (agent w) \<noteq> Death"
    by (simp add: agent_ok_def)
  with assms(2,3) show ?thesis
    by (simp add: takeDamage_def Let_def changeState_isAlive)
qed

section \<open>Taking damage\<close>

text \<open>
  Claim C6.  For the agent of every reachable world that is alive, and every amount that
  brings its health to 0 or below, \<open>takeDamage\<close> leaves it in state \<open>death\<close> with
  \<open>isAlive\<close> false.  For every agent that is not alive, \<open>takeDamage\<close> only
  subtracts the amount from the health (no clamping): state and \<open>isAlive\<close> stay.
\<close>

theorem takeDamage_death:
  "(reachable w \<and> isAlive (agent w) \<and> health (agent w) - amount \<le> 0 \<longrightarrow>
      state (takeDamage amount (agent w)) = Death
      \<and> \<not> isAlive (takeDamage amount (agent w)))
   \<and> (\<not> isAlive z \<longrightarrow>
        takeDamage further z = z\<lparr> health := health z - further \<rparr>
        \<and> health (takeDamage further z) = health z - further
        \<and> state (takeDamage further z) = state z
        \<and> isAlive (takeDamage further z) = isAlive z)"
  using lethal_hit [of w amount] by (simp add: takeDamage_def Let_def)

text \<open>
  The theorem at a fresh \<open>standard\<close> agent (health 100) hit for 100 and then for 30.
\<close>

theorem takeDamage_death_witness:
  "isAlive (agent (spawn_world origin standard (player_at 10) True 0))
   \<and> health (agent (spawn_world origin standard (player_at 10) True 0)) - 100 = 0
   \<and> state (takeDamage 100 (agent (spawn_world origin standard (player_at 10) True 0))) = Death
   \<and> \<not> isAlive (takeDamage 100 (agent (spawn_world origin standard (player_at 10) True 0)))
   \<and> health (takeDamage 30 (takeDamage 100
         (agent (spawn_world origin standard (player_at 10) True 0)))) = - 30
   \<and> state (takeDamage 30 (takeDamage 100
         (agent (spawn_world origin standard (player_at 10) True 0)))) = Death"
  using takeDamage_death [of "spawn_world origin standard (player_at 10) True 0" 100
      "takeDamage 100 (agent (spawn_world origin standard (player_at 10) True 0))" 30]
    reachable.spawn [of origin standard "player_at 10" True 0]
  by (simp add: world_defs)

section \<open>The delayed attack damage\<close>

lemma run_Death:
  "state (agent w) = Death \<Longrightarrow> state (agent (run es w)) = Death"
  by (induction es arbitrary: w) (simp_all add: step_Death)

text \<open>
  Claim C5.  (1) An event changes the amounts of damage the player took only if it is
  the firing of a damage callback that has fallen due, at an instant when the agent's
  state is \<open>attack\<close> and the distance to the player is at most the attack range.
  (2) Pending callbacks change only in three ways: not at all; an \<open>update\<close> (the
  trigger) appends the damage callback due 500 ms and the return callback due 1200 ms
  after the current instant; a firing removes the callback fired.  (3) When the agent
  of a reachable world is alive and takes damage that brings its health to 0 or below, it
  enters \<open>death\<close>, and after whatever events follow it is still in \<open>death\<close> and
  the player has taken no further damage.
\<close>

theorem attack_damage_only_at_callback:
  "(damageTaken (thePlayer (step e w)) \<noteq> damageTaken (thePlayer w) \<longrightarrow>
      (\<exists>i due. e = Fire i \<and> i < length (timeouts w) \<and> timeouts w ! i = (due, DealDamage)
         \<and> due \<le> now w \<and> state (agent w) = Attack
         \<and> distanceTo (position (agent w)) (player_pos (thePlayer w))
             \<le> attackRange (agent w)))
   \<and> (timeouts (step e w) = timeouts w
       \<or> (\<exists>dt. e = Update dt
             \<and> timeouts (step e w)
                 = timeouts w @ [(now w + 500, DealDamage), (now w + 1200, ReturnToChase)])
       \<or> (\<exists>i. e = Fire i \<and> i < length (timeouts w) \<and> fst (timeouts w ! i) \<le> now w
             \<and> timeouts (step e w) = take i (timeouts w) @ drop (Suc i) (timeouts w)))
   \<and> (reachable v \<and> isAlive (agent v) \<and> health (agent v) - amount \<le> 0 \<longrightarrow>
        state (agent (step (Hit amount) v)) = Death
        \<and> (\<forall>es. state (agent (run es (step (Hit amount) v))) = Death
               \<and> damageTaken (thePlayer (run es (step (Hit amount) v)))
                   = damageTaken (thePlayer v)))"
proof -
  have a: "damageTaken (thePlayer (step e w)) \<noteq> damageTaken (thePlayer w) \<longrightarrow>
      (\<exists>i due. e = Fire i \<and> i < length (timeouts w) \<and> timeouts w ! i = (due, DealDamage)
         \<and> due \<le> now w \<and> state (agent w) = Attack
         \<and> distanceTo (position (agent w)) (player_pos (thePlayer w))
             \<le> attackRange (agent w))"
    using step_player [of e w] by blast
  have c: "state (agent (step (Hit amount) v)) = Death
        \<and> (\<forall>es. state (agent (run es (step (Hit amount) v))) = Death
               \<and> damageTaken (thePlayer (run es (step (Hit amount) v)))
                   = damageTaken (thePlayer v))"
    if "reachable v" "isAlive (agent v)" "health (agent v) - amount \<le> 0"
  proof -
    from lethal_hit [OF that] have d: "state (agent (step (Hit amount) v)) = Death" by simp
    with run_Death [OF d] run_player_Death [OF d] show ?thesis by simp
  qed
  from a step_timeouts [of e w] c show ?thesis by blast
qed


text \<open>
  The theorem at a \<open>standard\<close> agent next to the player: the second update triggers
  the attack; 500 ms later the callback passes 20; it passes nothing when it is not yet
  due, when the player has moved out of range, or when the agent was killed meanwhile.
\<close>

theorem attack_damage_only_at_callback_witness:
  "timeouts (run [Update (1 / 60), Update (3 / 2)]
       (spawn_world origin standard (player_at 1) True 0))
     = [(500, DealDamage), (1200, ReturnToChase)]
   \<and> state (agent (run [Update (1 / 60), Update (3 / 2), Elapse 500]
       (spawn_world origin standard (player_at 1) True 0))) = Attack
   \<and> damageTaken (thePlayer (run [Update (1 / 60), Update (3 / 2), Elapse 500]
       (spawn_world origin standard (player_at 1) True 0))) = []
   \<and> damageTaken (thePlayer (run [Update (1 / 60), Update (3 / 2), Elapse 500, Fire 0]
       (spawn_world origin standard (player_at 1) True 0))) = [20]
   \<and> damageTaken (thePlayer (run [Update (1 / 60), Update (3 / 2), Elapse 499, Fire 0]
       (spawn_world origin standard (player_at 1) True 0))) = []
   \<and> damageTaken (thePlayer (run [Update (1 / 60), Update (3 / 2), Elapse 500,
         MovePlayer \<lparr> vx = 2, vy = 0, vz = 0 \<rparr>, Fire 0]
       (spawn_world origin standard (player_at 1) True 0))) = []
   \<and> isAlive (agent (run [Update (1 / 60), Update (3 / 2)]
       (spawn_world origin standard (player_at 1) True 0)))
   \<and> health (agent (run [Update (1 / 60), Update (3 / 2)]
       (spawn_world origin standard (player_at 1) True 0))) - 100 \<le> 0
   \<and> damageTaken (thePlayer (run [Elapse 500, Fire 0] (step (Hit 100)
       (run [Update (1 / 60), Update (3 / 2)]
          (spawn_world origin standard (player_at 1) True 0))))) = []"
proof -
  let ?start = "spawn_world origin standard (player_at 1) True 0"
  let ?v = "run [Update (1 / 60), Update (3 / 2)] ?start"
  let ?w = "run [Update (1 / 60), Update (3 / 2), Elapse 500] ?start"
  have "reachable ?start" by (rule reachable.spawn)
  then have "reachable (step (Update (1 / 60)) ?start)" by (rule reachable.event) simp
  then have "reachable (step (Update (3 / 2)) (step (Update (1 / 60)) ?start))"
    by (rule reachable.event) simp
  then have v: "reachable ?v" by simp
  have alive: "isAlive (agent ?v) \<and> health (agent ?v) - 100 \<le> 0"
    by (simp add: world_defs)
  from attack_damage_only_at_callback [of "Fire 0" ?w ?v 100] v alive
  have "damageTaken (thePlayer (run [Elapse 500, Fire 0] (step (Hit 100) ?v)))
      = damageTaken (thePlayer ?v)"
    by blast
  then show ?thesis
    by (simp add: world_defs)
qed

lemma updatePerception_attackDamage [simp]:
  "attackDamage (updatePerception dt p z) = attackDamage z"
  by (simp add: updatePerception_def onPlayerSpotted_def Let_def split: option.splits)

lemma processStateMachine_attackDamage [simp]:
  "attackDamage (fst (processStateMachine dt p z)) = attackDamage z"
  by (simp add: processStateMachine_def processIdleState_def processChaseState_def
      processAttackState_def Let_def split: option.splits zstate.splits)

lemma update_attackDamage [simp]: "attackDamage (fst (update dt p z)) = attackDamage z"
  by (simp add: update_def Let_def)

lemma step_attackDamage: "attackDamage (agent (step e w)) = attackDamage (agent w)"
proof (cases e)
  case (Fire i)
  then show ?thesis
    by (cases "snd (timeouts w ! i)") (simp_all add: dealDamage_def returnToChase_def)
qed (simp_all add: Let_def takeDamage_def)

text \<open>
  Claim C10.  Whatever the event, the amounts passed to the player's \<open>takeDamage\<close>
  stay as they were or grow by the one amount 20.  The callback does the same to the
  player whatever the agent's \<open>attackDamage\<close> is; that field holds the archetype's
  damage (20 when it is absent or 0) and no event changes it.
\<close>

theorem attack_amount_is_20:
  "(damageTaken (thePlayer (step e w)) = damageTaken (thePlayer w)
      \<or> damageTaken (thePlayer (step e w)) = damageTaken (thePlayer w) @ [20])
   \<and> thePlayer (dealDamage (w\<lparr> agent := (agent w)\<lparr> attackDamage := d \<rparr> \<rparr>))
       = thePlayer (dealDamage w)
   \<and> attackDamage (agent (spawn_world pos props pl attached t)) = js_or (p_damage props) 20
   \<and> attackDamage (agent (step e w)) = attackDamage (agent w)"
proof -
  from step_player [of e w]
  have "damageTaken (thePlayer (step e w)) = damageTaken (thePlayer w)
      \<or> damageTaken (thePlayer (step e w)) = damageTaken (thePlayer w) @ [20]"
    by blast
  moreover have "thePlayer (dealDamage (w\<lparr> agent := (agent w)\<lparr> attackDamage := d \<rparr> \<rparr>))
       = thePlayer (dealDamage w)"
    by (simp add: dealDamage_def)
  moreover have "attackDamage (agent (spawn_world pos props pl attached t))
       = js_or (p_damage props) 20"
    by (simp add: spawn_world_def init_def new_Zombie_def optimizeForLargeNumbers_def)
  ultimately show ?thesis by (simp add: step_attackDamage)
qed

text \<open>
  The theorem at a \<open>tank\<close> (damage 35) next to the player: it attacks, the callback
  falls due after 500 ms and passes 20.
\<close>

theorem attack_amount_is_20_witness:
  "attackDamage (agent (run [Update (1 / 60), Update (3 / 2), Elapse 500]
       (spawn_world origin tank (player_at 1) True 0))) = 35
   \<and> timeouts (run [Update (1 / 60), Update (3 / 2), Elapse 500]
       (spawn_world origin tank (player_at 1) True 0))
       = [(500, DealDamage), (1200, ReturnToChase)]
   \<and> damageTaken (thePlayer (run [Update (1 / 60), Update (3 / 2), Elapse 500]
       (spawn_world origin tank (player_at 1) True 0))) = []
   \<and> damageTaken (thePlayer (step (Fire 0) (run [Update (1 / 60), Update (3 / 2), Elapse 500]
       (spawn_world origin tank (player_at 1) True 0)))) = [20]"
  using attack_amount_is_20 [of "Fire 0" "run [Update (1 / 60), Update (3 / 2), Elapse 500]
       (spawn_world origin tank (player_at 1) True 0)" 35 origin tank "player_at 1" True 0]
  by (simp add: world_defs)

section \<open>Perception: from idle to chase\<close>


















end
